theory Spec2Isabelle
  imports Main
begin

section \<open>Data model\<close>

text \<open>
  The types of \<^verbatim>\<open>src/index.ts\<close>. A JavaScript string is a \<^typ>\<open>string\<close>, one
  \<^typ>\<open>char\<close> per code unit (the code units below 256; the expression and the
  operations below tell apart only characters in that range). JavaScript numbers
  (geometry, font size) are only ever copied by the code under study, so their type is the
  parameter \<open>'n\<close>. An optional attribute is an \<open>option\<close>.
\<close>

datatype item_type = TEXT | QR | IMAGE

record 'n canvas_item =
  ci_id :: string
  ci_type :: item_type
  ci_content :: string
  ci_x :: 'n
  ci_y :: 'n
  ci_width :: 'n
  ci_height :: 'n
  ci_fontSize :: "'n option"
  ci_fontFamily :: "string option"
  ci_fontWeight :: "string option"
  ci_fontStyle :: "string option"
  ci_textDecoration :: "string option"
  ci_color :: "string option"
  ci_textAlign :: "string option"

record template_field =
  f_name :: string
  f_label :: string
  f_targetItemId :: string

datatype role = Draft | Filled

record 'n template =
  t_name :: string
  t_folderId :: "string option"
  t_width :: 'n
  t_height :: 'n
  t_items :: "'n canvas_item list"
  t_fields :: "template_field list"
  t_role :: role

text \<open>\<^verbatim>\<open>type MergeRow = Record<string, string>\<close>: the row's own entries, all of
  them strings, as the type declares.\<close>

type_synonym MergeRow = "string \<rightharpoonup> string"

section \<open>The placeholder regular expression\<close>

text \<open>
  \<^verbatim>\<open>const placeholderRegex = /\{\{([A-Za-z0-9_]+)\}\}/g\<close>.
  The character class, by code unit ranges:
\<close>

definition is_word_char :: "char \<Rightarrow> bool" where
  "is_word_char c \<longleftrightarrow>
     (let u = (of_char c :: nat)
      in (65 \<le> u \<and> u \<le> 90) \<or> (97 \<le> u \<and> u \<le> 122) \<or> (48 \<le> u \<and> u \<le> 57) \<or> u = 95)"

text \<open>
  The greedy quantifier \<^verbatim>\<open>+\<close> followed by \<^verbatim>\<open>\}\}\<close>: the matcher first takes
  all \<open>k\<close> word characters available, and gives them back one at a time until the rest
  starts with two closing braces; with none left the attempt fails. The result is the
  capture group and the text after the match.
\<close>

fun greedy :: "nat \<Rightarrow> string \<Rightarrow> (string \<times> string) option" where
  "greedy 0 t = None"
| "greedy (Suc k) t =
     (if take 2 (drop (Suc k) t) = ''}}''
      then Some (take (Suc k) t, drop (Suc k + 2) t)
      else greedy k t)"

text \<open>One attempt to match the expression at the start of \<open>s\<close>.\<close>

definition match_at :: "string \<Rightarrow> (string \<times> string) option" where
  "match_at s =
     (if take 2 s = ''{{''
      then greedy (length (takeWhile is_word_char (drop 2 s))) (drop 2 s)
      else None)"

text \<open>
  The word characters exclude the closing brace, so giving characters back never helps:
  the attempt succeeds exactly when the whole run of word characters is non-empty and is
  followed by two closing braces.
\<close>

lemma not_word_close [simp]: "\<not> is_word_char CHR ''}''"
  by (simp add: is_word_char_def)

lemma not_word_open [simp]: "\<not> is_word_char CHR ''{''"
  by (simp add: is_word_char_def)

lemma greedy_eq:
  "k \<le> length (takeWhile is_word_char t) \<Longrightarrow>
   greedy k t =
     (if k = length (takeWhile is_word_char t) \<and> 0 < k
         \<and> take 2 (dropWhile is_word_char t) = ''}}''
      then Some (takeWhile is_word_char t, drop 2 (dropWhile is_word_char t)) else None)"
proof (induction k)
  case 0
  then show ?case by simp
next
  case (Suc k)
  show ?case
  proof (cases "Suc k = length (takeWhile is_word_char t)")
    case True
    have "dropWhile is_word_char t = drop (length (takeWhile is_word_char t)) t"
      by (rule dropWhile_eq_drop)
    then have d: "drop (Suc k) t = dropWhile is_word_char t"
      using True by simp
    have "takeWhile is_word_char t = take (length (takeWhile is_word_char t)) t"
      by (rule takeWhile_eq_take)
    then have tk: "take (Suc k) t = takeWhile is_word_char t"
      using True by simp
    have g: "greedy k t = None" using Suc.IH True by simp
    have d2: "drop (Suc k + 2) t = drop 2 (dropWhile is_word_char t)"
      using d by (metis add.commute drop_drop)
    have "greedy (Suc k) t =
      (if take 2 (dropWhile is_word_char t) = ''}}''
       then Some (takeWhile is_word_char t, drop 2 (dropWhile is_word_char t)) else None)"
      unfolding greedy.simps d d2 tk g ..
    moreover have "takeWhile is_word_char t \<noteq> []" using True by auto
    ultimately show ?thesis using True by simp
  next
    case False
    then have lt: "Suc k < length (takeWhile is_word_char t)" using Suc.prems by simp
    then have "is_word_char (takeWhile is_word_char t ! Suc k)"
      using nth_mem set_takeWhileD by metis
    moreover have "takeWhile is_word_char t ! Suc k = t ! Suc k"
      using lt by (simp add: takeWhile_nth)
    moreover have "Suc k < length t" using lt length_takeWhile_le
      by (metis le_trans not_less)
    ultimately have "take 2 (drop (Suc k) t) \<noteq> ''}}''"
      by (auto simp: Cons_nth_drop_Suc [symmetric] simp del: drop_Suc)
    moreover have "greedy k t = None" using Suc.IH lt by simp
    ultimately show ?thesis using False by simp
  qed
qed

lemma match_at_simple:
  "match_at s =
     (if take 2 s = ''{{'' \<and> takeWhile is_word_char (drop 2 s) \<noteq> []
         \<and> take 2 (dropWhile is_word_char (drop 2 s)) = ''}}''
      then Some (takeWhile is_word_char (drop 2 s), drop 2 (dropWhile is_word_char (drop 2 s)))
      else None)"
  by (simp add: match_at_def greedy_eq)

lemma match_at_iff:
  "match_at s = Some (n, r) \<longleftrightarrow>
     n \<noteq> [] \<and> list_all is_word_char n \<and> s = ''{{'' @ n @ ''}}'' @ r"
proof
  assume m: "match_at s = Some (n, r)"
  let ?t = "drop 2 s"
  from m have a: "take 2 s = ''{{''" and b: "takeWhile is_word_char ?t \<noteq> []"
    and c: "take 2 (dropWhile is_word_char ?t) = ''}}''"
    and n: "n = takeWhile is_word_char ?t" and r: "r = drop 2 (dropWhile is_word_char ?t)"
    by (auto simp: match_at_simple split: if_splits)
  have "s = take 2 s @ ?t" by simp
  also have "?t = takeWhile is_word_char ?t @ dropWhile is_word_char ?t" by simp
  also have "dropWhile is_word_char ?t = take 2 (dropWhile is_word_char ?t) @ r"
    using r by simp
  finally have "s = ''{{'' @ n @ ''}}'' @ r" using a c n by simp
  moreover have "list_all is_word_char n" using n
    by (auto simp: list_all_iff dest: set_takeWhileD)
  ultimately show "n \<noteq> [] \<and> list_all is_word_char n \<and> s = ''{{'' @ n @ ''}}'' @ r"
    using b n by simp
next
  assume h: "n \<noteq> [] \<and> list_all is_word_char n \<and> s = ''{{'' @ n @ ''}}'' @ r"
  then have all: "\<forall>c\<in>set n. is_word_char c" by (simp add: list_all_iff)
  have d: "drop 2 s = n @ ''}}'' @ r" using h by simp
  have tw: "takeWhile is_word_char (n @ ''}}'' @ r) = n"
    using all by (simp add: takeWhile_append2)
  have dw: "dropWhile is_word_char (n @ ''}}'' @ r) = ''}}'' @ r"
    using all by (simp add: dropWhile_append2)
  show "match_at s = Some (n, r)"
    unfolding match_at_simple d tw dw using h by simp
qed

lemma match_at_length: "match_at s = Some (n, r) \<Longrightarrow> length r < length s"
  by (simp add: match_at_iff)

section \<open>Running the global expression over a string\<close>

text \<open>
  Both \<^verbatim>\<open>String.prototype.matchAll\<close> and \<^verbatim>\<open>String.prototype.replace\<close> run the
  global expression from index 0: at each index an attempt is made; on success the match is
  recorded and the scan resumes after it, on failure the scan moves one code unit on. The
  trace of that scan is the list of unmatched code units and matches, in source order.
\<close>

datatype token = Lit char | Hole string

function tokens :: "string \<Rightarrow> token list" where
  "tokens [] = []"
| "tokens (c # cs) =
     (case match_at (c # cs) of
        Some (name, rest) \<Rightarrow> Hole name # tokens rest
      | None \<Rightarrow> Lit c # tokens cs)"
  by pat_completeness auto
termination
  by (relation "measure length") (auto dest: match_at_length)

text \<open>The match objects of \<^verbatim>\<open>matchAll\<close>: \<^verbatim>\<open>match.index\<close> and \<^verbatim>\<open>match[1]\<close>.\<close>

fun match_positions :: "nat \<Rightarrow> token list \<Rightarrow> (nat \<times> string) list" where
  "match_positions i [] = []"
| "match_positions i (Lit c # ts) = match_positions (Suc i) ts"
| "match_positions i (Hole name # ts) = (i, name) # match_positions (i + length name + 4) ts"

definition matchAll :: "string \<Rightarrow> (nat \<times> string) list" where
  "matchAll s = match_positions 0 (tokens s)"

text \<open>\<^verbatim>\<open>value.replace(placeholderRegex, (_match, key) => ...)\<close>: every match is replaced
  by what the callback returns for its capture group; the returned text is inserted as it
  is (replacement patterns apply to string replacements only).\<close>

definition js_replace :: "string \<Rightarrow> (string \<Rightarrow> string) \<Rightarrow> string" where
  "js_replace s f = concat (map (\<lambda>t. case t of Lit c \<Rightarrow> [c] | Hole key \<Rightarrow> f key) (tokens s))"

section \<open>Field extraction\<close>

text \<open>A JavaScript \<^verbatim>\<open>Map\<close> keeps its entries in insertion order; \<^verbatim>\<open>set\<close> on a
  key already present keeps the entry's place.\<close>

definition map_has :: "(string \<times> 'v) list \<Rightarrow> string \<Rightarrow> bool" where
  "map_has m k \<longleftrightarrow> k \<in> set (map fst m)"

fun map_set :: "(string \<times> 'v) list \<Rightarrow> string \<Rightarrow> 'v \<Rightarrow> (string \<times> 'v) list" where
  "map_set [] k v = [(k, v)]"
| "map_set ((k', v') # m) k v = (if k' = k then (k', v) # m else (k', v') # map_set m k v)"

definition map_values :: "(string \<times> 'v) list \<Rightarrow> 'v list" where
  "map_values m = map snd m"

text \<open>The body of \<^verbatim>\<open>items.forEach\<close> in \<^verbatim>\<open>extractFieldsFromItems\<close>.\<close>

definition scan_item ::
  "(string \<times> template_field) list \<Rightarrow> 'n canvas_item \<Rightarrow> (string \<times> template_field) list" where
  "scan_item m item =
     (if ci_type item \<noteq> TEXT \<or> ci_content item = [] then m
      else foldl (\<lambda>m match.
                    let name = snd match
                    in if \<not> map_has m name
                       then map_set m name
                              \<lparr>f_name = name, f_label = name, f_targetItemId = ci_id item\<rparr>
                       else m)
                 m (matchAll (ci_content item)))"

definition extractFieldsFromItems :: "'n canvas_item list \<Rightarrow> template_field list" where
  "extractFieldsFromItems items = map_values (foldl scan_item [] items)"

section \<open>Row substitution\<close>

text \<open>The callback keeps what it reads from the row only if it is a string
  (\<^verbatim>\<open>typeof replacement === "string"\<close>), so only the row's own entries count here.\<close>

definition replacePlaceholders :: "string \<Rightarrow> MergeRow \<Rightarrow> string" where
  "replacePlaceholders value row =
     (if value = [] then value
      else js_replace value
             (\<lambda>key. case row key of Some replacement \<Rightarrow> replacement | None \<Rightarrow> []))"

definition cloneItemsWithData :: "'n canvas_item list \<Rightarrow> MergeRow \<Rightarrow> 'n canvas_item list" where
  "cloneItemsWithData items row =
     map (\<lambda>item. if ci_type item \<noteq> TEXT then item
                 else item\<lparr>ci_content := replacePlaceholders (ci_content item) row\<rparr>) items"

section \<open>Folder tree\<close>

record folder =
  fo_id :: string
  fo_name :: string
  fo_parentId :: "string option"

text \<open>\<^verbatim>\<open>FolderModel.find({ parentId: current }).select("_id")\<close>, as the ids of the stored
  folders whose parent id is \<open>current\<close>, in the order of the store.\<close>

definition find_children :: "folder list \<Rightarrow> string \<Rightarrow> string list" where
  "find_children store current =
     map fo_id (filter (\<lambda>f. fo_parentId f = Some current) store)"

text \<open>The \<^verbatim>\<open>while (queue.length)\<close> loop of \<^verbatim>\<open>findDescendantFolderIds\<close>. It has no
  bound of its own, so a run that never leaves the loop is the value \<open>None\<close>.\<close>

partial_function (option) descend ::
  "folder list \<Rightarrow> string list \<Rightarrow> string list \<Rightarrow> string list option" where
  "descend store ids queue =
     (case queue of
        [] \<Rightarrow> Some ids
      | current # rest \<Rightarrow>
          (let children = find_children store current
           in descend store (ids @ children) (rest @ children)))"

definition findDescendantFolderIds :: "folder list \<Rightarrow> string \<Rightarrow> string list option" where
  "findDescendantFolderIds store rootId = descend store [rootId] [rootId]"

section \<open>The merge handler\<close>

text \<open>
  A property read \<^verbatim>\<open>row[key]\<close> gives the row's own string for the key if it has one.
  Without one it gives what the object inherits from \<^verbatim>\<open>Object.prototype\<close> under that
  name, a function or an object, and \<^verbatim>\<open>undefined\<close> if there is no such member.
\<close>

datatype js_value = Undefined | Str string | Inherited

definition object_prototype_names :: "string list" where
  "object_prototype_names =
     [''constructor'', ''hasOwnProperty'', ''isPrototypeOf'', ''propertyIsEnumerable'',
      ''toLocaleString'', ''toString'', ''valueOf'', ''__defineGetter__'',
      ''__defineSetter__'', ''__lookupGetter__'', ''__lookupSetter__'', ''__proto__'']"

definition row_get :: "MergeRow \<Rightarrow> string \<Rightarrow> js_value" where
  "row_get row key =
     (case row key of
        Some s \<Rightarrow> Str s
      | None \<Rightarrow> if key \<in> set object_prototype_names then Inherited else Undefined)"

text \<open>What the handler's \<^verbatim>\<open>try\<close> block can throw: the type error of calling
  \<^verbatim>\<open>trim\<close> on a value that has no such method, and the rejection of a document lookup
  whose id does not cast to a document id.\<close>

datatype js_exception = TypeError | CastError

text \<open>
  The template store is the list of stored documents with their ids, oldest first.
  \<^verbatim>\<open>findById\<close> first casts the given string to a document id and rejects when that
  fails; the cast belongs to the storage library, which is not part of the source, and is
  the parameter \<open>cast\<close>. \<^verbatim>\<open>create\<close> stores the attributes under a new id, which the
  storage layer chooses (\<open>newId\<close>). The creation time stamp of a document is not
  modelled.
\<close>

type_synonym 'n template_store = "(string \<times> 'n template) list"

definition findById ::
  "(string \<Rightarrow> string option) \<Rightarrow> 'n template_store \<Rightarrow> string
     \<Rightarrow> js_exception + 'n template option" where
  "findById cast store tid =
     (case cast tid of None \<Rightarrow> Inl CastError | Some oid \<Rightarrow> Inr (map_of store oid))"

definition create ::
  "('n template_store \<Rightarrow> string) \<Rightarrow> 'n template_store \<Rightarrow> 'n template
     \<Rightarrow> (string \<times> 'n template) \<times> 'n template_store" where
  "create newId store attrs = (let doc = (newId store, attrs) in (doc, store @ [doc]))"

record 'n template_response =
  tr_id :: string
  tr_name :: string
  tr_folderId :: "string option"
  tr_width :: 'n
  tr_height :: 'n
  tr_items :: "'n canvas_item list"
  tr_role :: role
  tr_fields :: "template_field list"

definition mapTemplate :: "string \<times> 'n template \<Rightarrow> 'n template_response" where
  "mapTemplate doc =
     \<lparr>tr_id = fst doc,
      tr_name = t_name (snd doc),
      tr_folderId = t_folderId (snd doc),
      tr_width = t_width (snd doc),
      tr_height = t_height (snd doc),
      tr_items = t_items (snd doc),
      tr_role = t_role (snd doc),
      tr_fields = t_fields (snd doc)\<rparr>"

text \<open>The request body: each of \<^verbatim>\<open>templateId\<close>, \<^verbatim>\<open>folderId\<close> and \<^verbatim>\<open>rows\<close> may be
  missing; \<open>mr_rows\<close> is \<open>None\<close> when \<^verbatim>\<open>rows\<close> is not an array.\<close>

record merge_request =
  mr_templateId :: "string option"
  mr_folderId :: "string option"
  mr_rows :: "MergeRow list option"

text \<open>The failures of a request, by status: 400, 404, and 500 from the \<^verbatim>\<open>catch\<close>
  branch.\<close>

datatype error = ValidationFailure | NotFound | InternalError

text \<open>A string is truthy when it is not empty, a function or an object always;
  \<^verbatim>\<open>undefined\<close> is falsy.\<close>

definition truthy :: "js_value \<Rightarrow> bool" where
  "truthy v = (case v of Undefined \<Rightarrow> False | Str s \<Rightarrow> s \<noteq> [] | Inherited \<Rightarrow> True)"

definition js_or :: "js_value \<Rightarrow> js_value \<Rightarrow> js_value" where
  "js_or a b = (if truthy a then a else b)"

text \<open>\<^verbatim>\<open>String.prototype.trim\<close> removes white space and line terminators at both ends;
  these are the ones among the code units of \<^typ>\<open>char\<close>.\<close>

definition is_js_whitespace :: "char \<Rightarrow> bool" where
  "is_js_whitespace c \<longleftrightarrow> (of_char c :: nat) \<in> {9, 10, 11, 12, 13, 32, 160}"

definition trim :: "string \<Rightarrow> string" where
  "trim s = rev (dropWhile is_js_whitespace (rev (dropWhile is_js_whitespace s)))"

text \<open>The decimal digits of a number, as the template literal prints \<^verbatim>\<open>index + 1\<close>.\<close>

fun string_of_nat :: "nat \<Rightarrow> string" where
  "string_of_nat n =
     (if n < 10 then [''0123456789'' ! n]
      else string_of_nat (n div 10) @ [''0123456789'' ! (n mod 10)])"

declare string_of_nat.simps [simp del]

definition preferredNameField :: "template_field list \<Rightarrow> MergeRow \<Rightarrow> js_value" where
  "preferredNameField effectiveFields row =
     js_or (js_or (row_get row ''__name'') (row_get row ''name''))
       (case effectiveFields of
          [] \<Rightarrow> Undefined
        | f # _ \<Rightarrow> if f_name f \<noteq> [] then row_get row (f_name f) else Undefined)"

text \<open>The name of an output. A truthy \<^verbatim>\<open>preferredNameField\<close> is trimmed; when it is
  not a string the call of \<^verbatim>\<open>trim\<close> throws.\<close>

definition generatedName ::
  "'n template \<Rightarrow> template_field list \<Rightarrow> MergeRow \<Rightarrow> nat \<Rightarrow> js_exception + string" where
  "generatedName template effectiveFields row index =
     (case preferredNameField effectiveFields row of
        Undefined \<Rightarrow> Inr (t_name template @ '' #'' @ string_of_nat (index + 1))
      | Str p \<Rightarrow>
          if p \<noteq> [] \<and> length (trim p) \<noteq> 0 then Inr (trim p)
          else Inr (t_name template @ '' #'' @ string_of_nat (index + 1))
      | Inherited \<Rightarrow> Inl TypeError)"

text \<open>The \<^verbatim>\<open>for\<close> loop over the rows, from \<open>index\<close> on. An exception ends it; the
  templates created for the rows before stay in the store.\<close>

fun merge_rows ::
  "('n template_store \<Rightarrow> string) \<Rightarrow> 'n template \<Rightarrow> template_field list \<Rightarrow> string option
     \<Rightarrow> nat \<Rightarrow> MergeRow list \<Rightarrow> 'n template_store \<Rightarrow> 'n template_response list
     \<Rightarrow> (js_exception + 'n template_response list) \<times> 'n template_store" where
  "merge_rows newId template effectiveFields folderId index [] store createdTemplates =
     (Inr createdTemplates, store)"
| "merge_rows newId template effectiveFields folderId index (row # rows) store createdTemplates =
     (let targetFolderId = (case folderId of Some f \<Rightarrow> Some f | None \<Rightarrow> t_folderId template);
          clonedItems = cloneItemsWithData (t_items template) row
      in case generatedName template effectiveFields row index of
           Inl exn \<Rightarrow> (Inl exn, store)
         | Inr name \<Rightarrow>
             (let (newTemplate, store') =
                    create newId store
                      \<lparr>t_name = name,
                       t_folderId = targetFolderId,
                       t_width = t_width template,
                       t_height = t_height template,
                       t_items = clonedItems,
                       t_fields = effectiveFields,
                       t_role = Filled\<rparr>
              in merge_rows newId template effectiveFields folderId (index + 1) rows store'
                   (createdTemplates @ [mapTemplate newTemplate])))"

text \<open>\<^verbatim>\<open>POST /api/merge\<close>: the response (status 400, 404 or 500, or 201 with the created
  templates) and the store afterwards. Whatever the \<^verbatim>\<open>try\<close> block throws is caught and
  answered with status 500.\<close>

definition merge ::
  "(string \<Rightarrow> string option) \<Rightarrow> ('n template_store \<Rightarrow> string) \<Rightarrow> 'n template_store
     \<Rightarrow> merge_request \<Rightarrow> (error + 'n template_response list) \<times> 'n template_store" where
  "merge cast newId store req =
     (case (mr_templateId req, mr_rows req) of
        (Some templateId, Some rows) \<Rightarrow>
          if templateId = [] \<or> length rows = 0 then (Inl ValidationFailure, store)
          else
            (case findById cast store templateId of
               Inl exn \<Rightarrow> (Inl InternalError, store)
             | Inr None \<Rightarrow> (Inl NotFound, store)
             | Inr (Some template) \<Rightarrow>
                 (let effectiveFields =
                        (if t_fields template \<noteq> [] then t_fields template
                         else extractFieldsFromItems (t_items template))
                  in case merge_rows newId template effectiveFields (mr_folderId req) 0 rows store []
                     of (Inl exn, store') \<Rightarrow> (Inl InternalError, store')
                      | (Inr createdTemplates, store') \<Rightarrow> (Inr createdTemplates, store')))
      | _ \<Rightarrow> (Inl ValidationFailure, store))"

section \<open>Vocabulary of the specification\<close>

text \<open>A placeholder name is one or more characters of \<^verbatim>\<open>[A-Za-z0-9_]\<close>; the text of
  a placeholder is its name between two opening and two closing braces; a placeholder
  occurs in \<open>s\<close> at index \<open>i\<close> when that text is found there.\<close>

definition valid_name :: "string \<Rightarrow> bool" where
  "valid_name n \<longleftrightarrow> n \<noteq> [] \<and> list_all is_word_char n"

definition placeholder_text :: "string \<Rightarrow> string" where
  "placeholder_text n = ''{{'' @ n @ ''}}''"

definition placeholder_at :: "string \<Rightarrow> nat \<Rightarrow> string \<Rightarrow> bool" where
  "placeholder_at s i n \<longleftrightarrow>
     valid_name n \<and> take (length (placeholder_text n)) (drop i s) = placeholder_text n"

text \<open>The text of the source that a token of the scan stands for.\<close>

fun source_text :: "token \<Rightarrow> string" where
  "source_text (Lit c) = [c]"
| "source_text (Hole name) = placeholder_text name"

text \<open>The value that \<^verbatim>\<open>replacePlaceholders\<close> inserts for a key: the row's string, or
  the empty string when the row has none.\<close>

definition row_value :: "MergeRow \<Rightarrow> string \<Rightarrow> string" where
  "row_value row key = (case row key of Some replacement \<Rightarrow> replacement | None \<Rightarrow> [])"

text \<open>The placeholder occurrences of an item list in reading order, each with the id of
  its item: items in list order, only TEXT items, and within an item from left to right.\<close>

definition occurrences :: "'n canvas_item list \<Rightarrow> (string \<times> string) list" where
  "occurrences items =
     concat (map (\<lambda>item. if ci_type item = TEXT
                          then map (\<lambda>m. (snd m, ci_id item)) (matchAll (ci_content item))
                          else []) items)"

text \<open>One entry per key, the first one, in the order of first occurrence.\<close>

fun first_occurrences :: "(string \<times> 'a) list \<Rightarrow> (string \<times> 'a) list" where
  "first_occurrences [] = []"
| "first_occurrences (p # ps) = p # first_occurrences (filter (\<lambda>q. fst q \<noteq> fst p) ps)"

definition field_of :: "string \<times> string \<Rightarrow> template_field" where
  "field_of p = \<lparr>f_name = fst p, f_label = fst p, f_targetItemId = snd p\<rparr>"

text \<open>What the loop over the matches does with one occurrence.\<close>

definition insert_field ::
  "(string \<times> template_field) list \<Rightarrow> string \<times> string \<Rightarrow> (string \<times> template_field) list" where
  "insert_field m p = (if \<not> map_has m (fst p) then map_set m (fst p) (field_of p) else m)"

text \<open>The is-parent-of relation of a folder store: an edge from the parent id to the id of
  each folder that names it.\<close>

definition parent_edges :: "folder list \<Rightarrow> (string \<times> string) set" where
  "parent_edges store =
     set (concat (map (\<lambda>f. case fo_parentId f of None \<Rightarrow> [] | Some p \<Rightarrow> [(p, fo_id f)]) store))"

text \<open>Breadth-first levels: the queue itself, then the children of its members, in order,
  and so on.\<close>

definition next_level :: "folder list \<Rightarrow> string list \<Rightarrow> string list" where
  "next_level store q = concat (map (find_children store) q)"

fun level :: "folder list \<Rightarrow> string list \<Rightarrow> nat \<Rightarrow> string list" where
  "level store q 0 = q"
| "level store q (Suc k) = level store (next_level store q) k"

text \<open>One pass through the body of the loop, on the pair of \<^verbatim>\<open>ids\<close> and
  \<^verbatim>\<open>queue\<close>; with an empty queue nothing changes.\<close>

definition dequeue :: "folder list \<Rightarrow> string list \<times> string list \<Rightarrow> string list \<times> string list" where
  "dequeue store s =
     (case snd s of
        [] \<Rightarrow> s
      | current # rest \<Rightarrow>
          (fst s @ find_children store current, rest @ find_children store current))"

text \<open>The number of passes through the loop that consume the first \<open>d\<close> levels.\<close>

definition steps_to_level :: "folder list \<Rightarrow> string list \<Rightarrow> nat \<Rightarrow> nat" where
  "steps_to_level store q d = sum_list (map (\<lambda>k. length (level store q k)) [0..<d])"


text \<open>The effective field set of a merge and the destination folder of its outputs.\<close>

definition effective_fields :: "'n template \<Rightarrow> template_field list" where
  "effective_fields t =
     (if t_fields t \<noteq> [] then t_fields t else extractFieldsFromItems (t_items t))"



definition first_nonempty :: "string option list \<Rightarrow> string option" where
  "first_nonempty cs =
     (case filter (\<lambda>c. c \<noteq> None \<and> c \<noteq> Some []) cs of [] \<Rightarrow> None | c # _ \<Rightarrow> c)"



text \<open>A row whose name derivation reads an inherited member: it has no non-empty
  \<^verbatim>\<open>__name\<close> or \<^verbatim>\<open>name\<close> of its own, the first effective field is named like a member
  of \<^verbatim>\<open>Object.prototype\<close>, and the row has no entry of its own under that name.\<close>

definition reads_inherited :: "template_field list \<Rightarrow> MergeRow \<Rightarrow> bool" where
  "reads_inherited eff row \<longleftrightarrow>
     first_nonempty [row ''__name'', row ''name''] = None
     \<and> (case eff of
          [] \<Rightarrow> False
        | f # _ \<Rightarrow> f_name f \<in> set object_prototype_names \<and> row (f_name f) = None)"




text \<open>A cast of strings to document ids to run the handler with: the strings of 24
  hexadecimal digits, read with their letters in lower case.\<close>

definition hex_digit :: "char \<Rightarrow> char option" where
  "hex_digit c = map_of (zip ''0123456789abcdefABCDEF'' ''0123456789abcdefabcdef'') c"

definition cast_hex24 :: "string \<Rightarrow> string option" where
  "cast_hex24 s =
     (if length s = 24 \<and> list_all (\<lambda>c. hex_digit c \<noteq> None) s
      then Some (map (\<lambda>c. case hex_digit c of Some d \<Rightarrow> d | None \<Rightarrow> c) s)
      else None)"

text \<open>A template, a store and a merge request to run the operations on.\<close>

definition example_item :: "int canvas_item" where
  "example_item =
     \<lparr>ci_id = ''a'', ci_type = TEXT, ci_content = ''SKU {{sku}}'',
      ci_x = 1, ci_y = 2, ci_width = 30, ci_height = 4, ci_fontSize = Some 12,
      ci_fontFamily = None, ci_fontWeight = None, ci_fontStyle = None,
      ci_textDecoration = None, ci_color = None, ci_textAlign = None\<rparr>"

definition example_template :: "int template" where
  "example_template =
     \<lparr>t_name = ''Base'', t_folderId = Some ''f1'', t_width = 100, t_height = 50,
      t_items = [example_item],
      t_fields = [\<lparr>f_name = ''sku'', f_label = ''sku'', f_targetItemId = ''a''\<rparr>],
      t_role = Draft\<rparr>"

definition example_id :: string where
  "example_id = ''64b7f0c2a1d3e4f567890abc''"

definition example_rows :: "MergeRow list" where
  "example_rows =
     [''__name'' \<mapsto> '' Custom '', ''sku'' \<mapsto> ''A0''] # [''sku'' \<mapsto> ''A1''] # Map.empty # []"


definition example_newId :: "int template_store \<Rightarrow> string" where
  "example_newId store = ''new'' @ string_of_nat (length store)"

section \<open>Properties of the scan\<close>

lemma length_placeholder_text [simp]: "length (placeholder_text n) = length n + 4"
  by (simp add: placeholder_text_def)

lemma match_at_placeholder:
  "match_at s = Some (n, r) \<longleftrightarrow> valid_name n \<and> s = placeholder_text n @ r"
  by (simp add: match_at_iff valid_name_def placeholder_text_def)

lemma match_at_append:
  "match_at u = Some (n, r) \<Longrightarrow> match_at (u @ v) = Some (n, r @ v)"
  by (simp add: match_at_placeholder)

lemma match_at_append_None:
  assumes "match_at u = None" and "u \<noteq> []"
  shows "match_at (u @ ''{{'' @ v) = None"
proof (rule ccontr)
  assume "match_at (u @ ''{{'' @ v) \<noteq> None"
  then obtain n r where m: "match_at (u @ ''{{'' @ v) = Some (n, r)" by auto
  then have n: "n \<noteq> []" and w: "\<forall>c\<in>set n. is_word_char c"
    and eq: "u @ ''{{'' @ v = ''{{'' @ n @ ''}}'' @ r"
    by (auto simp: match_at_iff list_all_iff)
  let ?p = "''{{'' @ n @ ''}}''"
  have eq': "u @ ''{{'' @ v = ?p @ r" using eq by simp
  show False
  proof (cases "length ?p \<le> length u")
    case True
    from eq' have "take (length ?p) (u @ ''{{'' @ v) = ?p" by simp
    then have "take (length ?p) u = ?p" using True by simp
    then have "u = ?p @ drop (length ?p) u" by (metis append_take_drop_id)
    then have "u = ''{{'' @ n @ ''}}'' @ drop (length ?p) u" by simp
    then have "match_at u = Some (n, drop (length ?p) u)"
      using n w by (simp only: match_at_iff list_all_iff) simp
    then show False using assms by simp
  next
    case False
    then have lt: "length u < length ?p" by simp
    obtain k where k: "length u = Suc k" using assms by (cases u) auto
    have "(u @ ''{{'' @ v) ! length u = CHR ''{''" by (simp add: nth_append)
    then have "(?p @ r) ! Suc k = CHR ''{''" using eq' k by metis
    moreover have "(?p @ r) ! Suc k = ?p ! Suc k" using lt k by (metis nth_append)
    ultimately have a: "(CHR ''{'' # n @ ''}}'') ! k = CHR ''{''" by simp
    have "(u @ ''{{'' @ v) ! Suc (length u) = CHR ''{''" by (simp add: nth_append)
    then have "(?p @ r) ! Suc (Suc k) = CHR ''{''" using eq' k by metis
    then have b: "(n @ ''}}'' @ r) ! k = CHR ''{''" by simp
    show False
    proof (cases k)
      case 0
      then have "n ! 0 = CHR ''{''" using b n by (simp add: nth_append)
      moreover have "n ! 0 \<in> set n" using n by simp
      ultimately show False using w by auto
    next
      case (Suc k')
      then have "(n @ ''}}'') ! k' = CHR ''{''" using a by simp
      moreover have "k' < length (n @ ''}}'')" using lt k Suc by simp
      then have "(n @ ''}}'') ! k' \<in> set (n @ ''}}'')" by (rule nth_mem)
      ultimately show False using w by auto
    qed
  qed
qed

lemma match_at_before_placeholder:
  "match_at u = None \<Longrightarrow> u \<noteq> [] \<Longrightarrow> match_at (u @ placeholder_text n @ post) = None"
  using match_at_append_None [of u "n @ ''}}'' @ post"]
  by (simp add: placeholder_text_def)

text \<open>Placeholders cannot overlap, so the scan of a text around a placeholder is the scan
  of what precedes it, the placeholder, and the scan of what follows.\<close>

lemma tokens_append_hole:
  assumes "valid_name n"
  shows "tokens (pre @ placeholder_text n @ post) = tokens pre @ Hole n # tokens post"
proof (induction pre rule: tokens.induct)
  case 1
  obtain c cs where c: "placeholder_text n @ post = c # cs"
    by (simp add: placeholder_text_def)
  have "match_at (placeholder_text n @ post) = Some (n, post)"
    using assms by (simp add: match_at_placeholder)
  then have "tokens (c # cs) = Hole n # tokens post" using c by simp
  then show ?case using c by simp
next
  case (2 c cs)
  show ?case
  proof (cases "match_at (c # cs)")
    case None
    then have "match_at ((c # cs) @ placeholder_text n @ post) = None"
      by (intro match_at_before_placeholder) simp_all
    then show ?thesis using None 2 by simp
  next
    case (Some a)
    obtain m r where a: "a = (m, r)" by (cases a)
    have "match_at ((c # cs) @ placeholder_text n @ post) =
        Some (m, r @ placeholder_text n @ post)"
      using Some a by (intro match_at_append) simp
    then show ?thesis using Some a 2 by simp
  qed
qed

lemma tokens_source: "concat (map source_text (tokens s)) = s"
proof (induction s rule: tokens.induct)
  case 1
  then show ?case by simp
next
  case (2 c cs)
  show ?case
  proof (cases "match_at (c # cs)")
    case None
    then show ?thesis using 2 by simp
  next
    case (Some a)
    obtain m r where a: "a = (m, r)" by (cases a)
    have ih: "concat (map source_text (tokens r)) = r" using 2 Some a by simp
    have tk: "tokens (c # cs) = Hole m # tokens r" using Some a by simp
    have "c # cs = placeholder_text m @ r"
      using Some a by (simp add: match_at_placeholder)
    then show ?thesis unfolding tk using ih by simp
  qed
qed

lemma tokens_valid: "Hole n \<in> set (tokens s) \<Longrightarrow> valid_name n"
proof (induction s rule: tokens.induct)
  case 1
  then show ?case by simp
next
  case (2 c cs)
  show ?case
  proof (cases "match_at (c # cs)")
    case None
    then show ?thesis using 2 by simp
  next
    case (Some a)
    obtain m r where a: "a = (m, r)" by (cases a)
    then have "valid_name m" using Some by (simp add: match_at_placeholder)
    then show ?thesis using Some a 2 by auto
  qed
qed

lemma match_positions_append:
  "match_positions i (ts @ us) =
     match_positions i ts @ match_positions (i + length (concat (map source_text ts))) us"
proof (induction i ts rule: match_positions.induct)
  case (3 i name ts)
  have e: "i + length name + 4 + length (concat (map source_text ts)) =
      i + length (concat (map source_text (Hole name # ts)))"
    by simp
  have "match_positions i ((Hole name # ts) @ us) =
      (i, name) # match_positions (i + length name + 4) (ts @ us)"
    by simp
  also have "\<dots> = (i, name) # match_positions (i + length name + 4) ts @
      match_positions (i + length name + 4 + length (concat (map source_text ts))) us"
    by (simp only: 3 append_Cons)
  also have "\<dots> = match_positions i (Hole name # ts) @
      match_positions (i + length (concat (map source_text (Hole name # ts)))) us"
    unfolding e by simp
  finally show ?case .
qed simp_all

lemma match_positions_sound:
  "(i, n) \<in> set (match_positions k ts) \<Longrightarrow> length pre = k \<Longrightarrow>
   \<forall>m. Hole m \<in> set ts \<longrightarrow> valid_name m \<Longrightarrow>
   placeholder_at (pre @ concat (map source_text ts)) i n"
proof (induction k ts arbitrary: pre rule: match_positions.induct)
  case (1 i)
  then show ?case by simp
next
  case (2 k c ts)
  then have "placeholder_at ((pre @ [c]) @ concat (map source_text ts)) i n"
    by (intro 2(1)) simp_all
  then show ?case by simp
next
  case (3 k name ts)
  show ?case
  proof (cases "(i, n) = (k, name)")
    case True
    then show ?thesis using 3(3,4) by (simp add: placeholder_at_def)
  next
    case False
    then have "(i, n) \<in> set (match_positions (k + length name + 4) ts)"
      using 3(2) by auto
    then have "placeholder_at ((pre @ placeholder_text name) @ concat (map source_text ts)) i n"
      using 3(3,4) by (intro 3(1)) simp_all
    then show ?thesis by simp
  qed
qed



lemma match_positions_names:
  "Hole n \<in> set ts \<longleftrightarrow> (\<exists>i. (i, n) \<in> set (match_positions k ts))"
  by (induction k ts rule: match_positions.induct) auto

lemma matchAll_sound: "(i, n) \<in> set (matchAll s) \<Longrightarrow> placeholder_at s i n"
  using match_positions_sound [of i n 0 "tokens s" "[]"]
  by (simp add: matchAll_def tokens_source tokens_valid)

lemma matchAll_complete:
  assumes "placeholder_at s i n"
  shows "(i, n) \<in> set (matchAll s)"
proof -
  let ?k = "length (placeholder_text n)"
  from assms have v: "valid_name n" and t: "take ?k (drop i s) = placeholder_text n"
    by (simp_all add: placeholder_at_def)
  have "length (take ?k (drop i s)) = ?k" using t by simp
  then have le: "i \<le> length s" by simp
  have "s = take i s @ take ?k (drop i s) @ drop ?k (drop i s)"
    by (simp only: append_take_drop_id)
  then have s: "s = take i s @ placeholder_text n @ drop ?k (drop i s)"
    using t by simp
  have "tokens s = tokens (take i s) @ Hole n # tokens (drop ?k (drop i s))"
    by (subst s) (rule tokens_append_hole [OF v])
  then have "matchAll s = match_positions 0 (tokens (take i s)) @
      (length (take i s), n) # match_positions (length (take i s) + length n + 4)
        (tokens (drop ?k (drop i s)))"
    by (simp add: matchAll_def match_positions_append tokens_source)
  moreover have "length (take i s) = i" using le by simp
  ultimately show ?thesis by simp
qed

lemma no_placeholder_iff: "(\<forall>i n. \<not> placeholder_at s i n) \<longleftrightarrow> matchAll s = []"
proof
  assume a: "\<forall>i n. \<not> placeholder_at s i n"
  show "matchAll s = []"
  proof (cases "matchAll s")
    case Nil
    then show ?thesis .
  next
    case (Cons p ps)
    then have "(fst p, snd p) \<in> set (matchAll s)" by simp
    then have "placeholder_at s (fst p) (snd p)" by (rule matchAll_sound)
    then show ?thesis using a by blast
  qed
next
  assume "matchAll s = []"
  then show "\<forall>i n. \<not> placeholder_at s i n" using matchAll_complete by fastforce
qed

lemma hole_placeholder: "Hole n \<in> set (tokens s) \<longleftrightarrow> (\<exists>i. placeholder_at s i n)"
  using matchAll_sound matchAll_complete match_positions_names [of n "tokens s" 0]
  unfolding matchAll_def by blast

section \<open>Properties of the replacement\<close>

lemma replacePlaceholders_js_replace:
  "replacePlaceholders s row = js_replace s (row_value row)"
  by (auto simp: replacePlaceholders_def js_replace_def row_value_def [abs_def])

lemma js_replace_append_hole:
  assumes "valid_name n"
  shows "js_replace (pre @ placeholder_text n @ post) f =
     js_replace pre f @ f n @ js_replace post f"
  unfolding js_replace_def tokens_append_hole [OF assms] by simp

lemma js_replace_cong:
  "(\<And>n. Hole n \<in> set (tokens s) \<Longrightarrow> f n = g n) \<Longrightarrow> js_replace s f = js_replace s g"
  unfolding js_replace_def
  by (rule arg_cong [where f = concat], rule map_cong) (auto split: token.splits)

lemma js_replace_source: "js_replace s placeholder_text = s"
proof -
  have "(\<lambda>t. case t of Lit c \<Rightarrow> [c] | Hole key \<Rightarrow> placeholder_text key) = source_text"
    by (rule ext) (simp split: token.splits)
  then show ?thesis by (simp add: js_replace_def tokens_source)
qed

lemma js_replace_no_placeholder:
  assumes "\<forall>i n. \<not> placeholder_at s i n"
  shows "js_replace s f = s"
proof -
  have "\<forall>n. Hole n \<notin> set (tokens s)"
    using assms by (simp add: hole_placeholder)
  then have "js_replace s f = js_replace s placeholder_text"
    by (intro js_replace_cong) simp
  then show ?thesis by (simp add: js_replace_source)
qed

section \<open>Properties of field extraction\<close>

lemma map_set_new: "\<not> map_has m k \<Longrightarrow> map_set m k v = m @ [(k, v)]"
  by (induction m) (auto simp: map_has_def)

lemma matchAll_Nil [simp]: "matchAll [] = []"
  by (simp add: matchAll_def)

lemma scan_item_foldl:
  "scan_item m item = foldl insert_field m (occurrences [item])"
proof -
  have "foldl (\<lambda>m match. let name = snd match in if \<not> map_has m name
                       then map_set m name
                              \<lparr>f_name = name, f_label = name, f_targetItemId = ci_id item\<rparr>
                       else m) m xs
      = foldl insert_field m (map (\<lambda>m. (snd m, ci_id item)) xs)" for xs
    by (induction xs arbitrary: m) (simp_all add: insert_field_def field_of_def Let_def)
  then show ?thesis
    by (auto simp: scan_item_def occurrences_def)
qed

lemma occurrences_Cons: "occurrences (item # items) = occurrences [item] @ occurrences items"
  by (simp add: occurrences_def)

lemma foldl_scan_item:
  "foldl scan_item m items = foldl insert_field m (occurrences items)"
proof (induction items arbitrary: m)
  case Nil
  then show ?case by (simp add: occurrences_def)
next
  case (Cons item items)
  show ?case
    by (subst occurrences_Cons) (simp add: Cons scan_item_foldl)
qed

lemma foldl_insert_field:
  "foldl insert_field m occs =
     m @ map (\<lambda>p. (fst p, field_of p))
           (first_occurrences (filter (\<lambda>p. \<not> map_has m (fst p)) occs))"
proof (induction occs arbitrary: m)
  case Nil
  then show ?case by simp
next
  case (Cons p occs)
  show ?case
  proof (cases "map_has m (fst p)")
    case True
    then have "insert_field m p = m" by (simp add: insert_field_def)
    then have "foldl insert_field m (p # occs) = foldl insert_field m occs" by simp
    then show ?thesis using True by (simp add: Cons)
  next
    case False
    let ?m = "m @ [(fst p, field_of p)]"
    have h: "map_has ?m k \<longleftrightarrow> map_has m k \<or> k = fst p" for k
      by (auto simp: map_has_def)
    have "insert_field m p = ?m" using False by (simp add: insert_field_def map_set_new)
    then have "foldl insert_field m (p # occs) = foldl insert_field ?m occs" by simp
    also have "\<dots> = ?m @ map (\<lambda>p. (fst p, field_of p))
           (first_occurrences (filter (\<lambda>q. \<not> map_has ?m (fst q)) occs))"
      by (rule Cons)
    also have "filter (\<lambda>q. \<not> map_has ?m (fst q)) occs =
        filter (\<lambda>q. fst q \<noteq> fst p) (filter (\<lambda>q. \<not> map_has m (fst q)) occs)"
      by (auto simp: h intro: filter_cong)
    finally show ?thesis using False by simp
  qed
qed

lemma extractFieldsFromItems_eq:
  "extractFieldsFromItems items = map field_of (first_occurrences (occurrences items))"
  by (simp add: extractFieldsFromItems_def map_values_def foldl_scan_item foldl_insert_field
      map_has_def comp_def)

lemma first_occurrences_keys: "set (map fst (first_occurrences xs)) = set (map fst xs)"
  by (induction xs rule: first_occurrences.induct) auto

lemma first_occurrences_distinct: "distinct (map fst (first_occurrences xs))"
proof (induction xs rule: first_occurrences.induct)
  case 1
  then show ?case by simp
next
  case (2 p ps)
  have "fst p \<notin> set (map fst (first_occurrences (filter (\<lambda>q. fst q \<noteq> fst p) ps)))"
    unfolding first_occurrences_keys by auto
  then show ?case using 2 by simp
qed

lemma first_occurrences_map_of: "map_of (first_occurrences xs) = map_of xs"
proof (induction xs rule: first_occurrences.induct)
  case 1
  then show ?case by simp
next
  case (2 p ps)
  have "map_of (filter (\<lambda>q. fst q \<noteq> k) ps) x = (if x = k then None else map_of ps x)" for k x
    by (induction ps) auto
  then show ?case using 2 by (cases p) (auto simp: fun_eq_iff)
qed

lemma first_occurrences_order:
  "map fst (first_occurrences xs) = rev (remdups (rev (map fst xs)))"
proof (induction xs rule: first_occurrences.induct)
  case 1
  then show ?case by simp
next
  case (2 p ps)
  have r: "remdups (ys @ [k]) = filter (\<lambda>y. y \<noteq> k) (remdups ys) @ [k]" for ys and k :: string
    by (induction ys) auto
  have "map fst (filter (\<lambda>q. fst q \<noteq> fst p) ps) = filter (\<lambda>y. y \<noteq> fst p) (map fst ps)"
    by (simp add: filter_map comp_def)
  then show ?case using 2
    by (simp add: r rev_filter rev_map remdups_filter)
qed

section \<open>Properties of the folder traversal\<close>

lemma parent_edges_iff:
  "(p, c) \<in> parent_edges store \<longleftrightarrow> (\<exists>f \<in> set store. fo_parentId f = Some p \<and> fo_id f = c)"
  by (force simp: parent_edges_def split: option.splits)

lemma find_children_edges: "set (find_children store p) = parent_edges store `` {p}"
  by (auto simp: find_children_def parent_edges_iff)

lemma set_next_level: "set (next_level store q) = parent_edges store `` set q"
  by (auto simp: next_level_def find_children_edges)

lemma next_level_append [simp]:
  "next_level store (q @ r) = next_level store q @ next_level store r"
  by (simp add: next_level_def)

lemma next_level_Nil [simp]: "next_level store [] = []"
  by (simp add: next_level_def)

lemma next_level_Cons:
  "next_level store (c # q) = find_children store c @ next_level store q"
  by (simp add: next_level_def)

lemma level_Nil [simp]: "level store [] k = []"
  by (induction k) simp_all

lemma level_append: "level store (q @ r) k = level store q k @ level store r k"
  by (induction k arbitrary: q r) simp_all

lemma level_add: "level store q (j + k) = level store (level store q j) k"
  by (induction j arbitrary: q) simp_all

lemma set_level: "set (level store q k) = (parent_edges store ^^ k) `` set q"
proof (induction k arbitrary: q)
  case 0
  then show ?case by simp
next
  case (Suc k)
  have "set (level store q (Suc k)) = (parent_edges store ^^ k) `` (parent_edges store `` set q)"
    by (simp add: Suc set_next_level)
  also have "\<dots> = (parent_edges store O parent_edges store ^^ k) `` set q"
    by (auto simp: relcomp_Image)
  also have "parent_edges store O parent_edges store ^^ k = parent_edges store ^^ Suc k"
    by (simp add: relpow_commute)
  finally show ?case .
qed

lemma finite_parent_edges: "finite (parent_edges store)"
  unfolding parent_edges_def by (rule finite_set)

lemma level_empty_later: "level store q d = [] \<Longrightarrow> d \<le> k \<Longrightarrow> level store q k = []"
  using level_add [of store q d "k - d"] by simp

lemma levels_end_list:
  "\<forall>x \<in> set q. \<exists>d. level store [x] d = [] \<Longrightarrow> \<exists>d. level store q d = []"
proof (induction q)
  case Nil
  then show ?case by simp
next
  case (Cons x q)
  then obtain d1 d2 where d1: "level store [x] d1 = []" and d2: "level store q d2 = []"
    by auto
  have "level store ([x] @ q) (max d1 d2) = []"
    unfolding level_append using d1 d2 by (simp add: level_empty_later)
  then show ?case by auto
qed

lemma levels_end:
  assumes "acyclic (parent_edges store)"
  shows "\<exists>d. level store [x] d = []"
proof -
  have "wf ((parent_edges store)\<inverse>)"
    using assms finite_parent_edges by (rule finite_acyclic_wf_converse [rotated])
  then show ?thesis
  proof (induction x rule: wf_induct_rule)
    case (less x)
    have "\<forall>c \<in> set (find_children store x). \<exists>d. level store [c] d = []"
      using less by (auto simp: find_children_edges)
    then obtain d where "level store (find_children store x) d = []"
      using levels_end_list by blast
    then have "level store [x] (Suc d) = []" by (simp add: next_level_def)
    then show ?case by blast
  qed
qed

lemma dequeue_level:
  "(dequeue store ^^ length q) (ids, q @ acc) =
     (ids @ next_level store q, acc @ next_level store q)"
proof (induction q arbitrary: ids acc)
  case Nil
  then show ?case by simp
next
  case (Cons c q)
  have "(dequeue store ^^ length (c # q)) (ids, (c # q) @ acc) =
      (dequeue store ^^ length q) (dequeue store (ids, (c # q) @ acc))"
    by (simp add: funpow_swap1)
  also have "dequeue store (ids, (c # q) @ acc) =
      (ids @ find_children store c, q @ (acc @ find_children store c))"
    by (simp add: dequeue_def)
  finally show ?case by (simp add: Cons next_level_Cons)
qed

lemma descend_dequeue:
  "descend store ids queue = descend store (fst (dequeue store (ids, queue))) (snd (dequeue store (ids, queue)))"
proof (cases queue)
  case Nil
  then show ?thesis by (simp add: dequeue_def)
next
  case (Cons c rest)
  have "descend store ids (c # rest) =
      descend store (ids @ find_children store c) (rest @ find_children store c)"
    by (subst descend.simps) (simp add: Let_def)
  then show ?thesis using Cons by (simp add: dequeue_def)
qed

lemma descend_funpow:
  "descend store (fst s) (snd s) =
     descend store (fst ((dequeue store ^^ n) s)) (snd ((dequeue store ^^ n) s))"
proof (induction n arbitrary: s)
  case 0
  then show ?case by simp
next
  case (Suc n)
  have "descend store (fst s) (snd s) =
      descend store (fst (dequeue store s)) (snd (dequeue store s))"
    using descend_dequeue [of store "fst s" "snd s"] by simp
  also have "\<dots> = descend store (fst ((dequeue store ^^ n) (dequeue store s)))
      (snd ((dequeue store ^^ n) (dequeue store s)))"
    by (rule Suc)
  finally show ?case by (simp add: funpow_swap1)
qed

lemma dequeue_levels:
  "\<exists>n. (dequeue store ^^ n) (ids, q) =
     (ids @ concat (map (\<lambda>k. level store q (Suc k)) [0..<d]), level store q d)"
proof (induction d)
  case 0
  have "(dequeue store ^^ 0) (ids, q) = (ids, q)" by simp
  then show ?case by (intro exI [of _ 0]) simp
next
  case (Suc d)
  then obtain n where n: "(dequeue store ^^ n) (ids, q) =
     (ids @ concat (map (\<lambda>k. level store q (Suc k)) [0..<d]), level store q d)" by blast
  let ?ids = "ids @ concat (map (\<lambda>k. level store q (Suc k)) [0..<d])"
  let ?q = "level store q d"
  have nl: "next_level store ?q = level store q (Suc d)"
    using level_add [of store q d 1] by simp
  have "(dequeue store ^^ (length ?q + n)) (ids, q) =
      (dequeue store ^^ length ?q) (?ids, ?q @ [])"
    by (simp add: funpow_add n)
  also have "\<dots> = (?ids @ next_level store ?q, [] @ next_level store ?q)"
    by (rule dequeue_level)
  finally have "(dequeue store ^^ (length ?q + n)) (ids, q) =
     (ids @ concat (map (\<lambda>k. level store q (Suc k)) [0..<Suc d]), level store q (Suc d))"
    by (simp add: nl)
  then show ?case by blast
qed

lemma levels_concat_shift:
  "q @ concat (map (\<lambda>k. level store q (Suc k)) [0..<d]) =
     concat (map (level store q) [0..<Suc d])"
  by (induction d) simp_all

lemma reachable_levels:
  assumes "level store q d = []"
  shows "set (concat (map (level store q) [0..<d])) = (parent_edges store)\<^sup>* `` set q"
proof -
  have "set (concat (map (level store q) [0..<d])) = (\<Union>k<d. (parent_edges store ^^ k) `` set q)"
    by (auto simp: set_level)
  also have "\<dots> = (\<Union>k. (parent_edges store ^^ k) `` set q)"
  proof -
    have "(parent_edges store ^^ k) `` set q = {}" if "d \<le> k" for k
      using level_empty_later [OF assms that] set_level [of store q k] by simp
    then have "x \<in> (parent_edges store ^^ k) `` set q \<Longrightarrow> k < d" for x k
      by (metis empty_iff not_le)
    then show ?thesis by blast
  qed
  also have "\<dots> = (parent_edges store)\<^sup>* `` set q"
    by (simp add: rtrancl_is_UN_relpow UN_Image)
  finally show ?thesis .
qed

lemma traversal_result:
  assumes "level store [rootId] d = []"
  shows "\<exists>n. (dequeue store ^^ n) ([rootId], [rootId]) =
           (concat (map (level store [rootId]) [0..<d]), [])
         \<and> findDescendantFolderIds store rootId = Some (concat (map (level store [rootId]) [0..<d]))"
proof -
  have d: "0 < d" using assms by (cases d) auto
  then obtain d' where d': "d = Suc d'" by (cases d) auto
  obtain n where n: "(dequeue store ^^ n) ([rootId], [rootId]) =
     ([rootId] @ concat (map (\<lambda>k. level store [rootId] (Suc k)) [0..<d]), level store [rootId] d)"
    using dequeue_levels by blast
  have "concat (map (\<lambda>k. level store [rootId] (Suc k)) [0..<d]) =
      concat (map (\<lambda>k. level store [rootId] (Suc k)) [0..<d'])"
    using assms d' by simp
  then have "[rootId] @ concat (map (\<lambda>k. level store [rootId] (Suc k)) [0..<d]) =
      concat (map (level store [rootId]) [0..<d])"
    using levels_concat_shift [of "[rootId]" store d'] d' by simp
  then have n': "(dequeue store ^^ n) ([rootId], [rootId]) =
      (concat (map (level store [rootId]) [0..<d]), [])"
    using n assms by simp
  have "findDescendantFolderIds store rootId =
      descend store (fst ((dequeue store ^^ n) ([rootId], [rootId])))
        (snd ((dequeue store ^^ n) ([rootId], [rootId])))"
    unfolding findDescendantFolderIds_def
    using descend_funpow [of store "([rootId], [rootId])" n] by simp
  also have "\<dots> = Some (concat (map (level store [rootId]) [0..<d]))"
    unfolding n' by (subst descend.simps) simp
  finally show ?thesis using n' by blast
qed

lemma descend_halts:
  assumes "descend store ids queue = Some r"
  shows "\<exists>n. (dequeue store ^^ n) (ids, queue) = (r, [])"
proof (rule descend.raw_induct
    [where P = "\<lambda>store ids queue r. \<exists>n. (dequeue store ^^ n) (ids, queue) = (r, [])",
      OF _ assms])
  fix call :: "folder list \<Rightarrow> string list \<Rightarrow> string list \<Rightarrow> string list option"
    and store ids queue r
  assume ih: "\<And>s i q y. call s i q = Some y \<Longrightarrow> \<exists>n. (dequeue s ^^ n) (i, q) = (y, [])"
    and eq: "(case queue of
        [] \<Rightarrow> Some ids
      | current # rest \<Rightarrow>
          (let children = find_children store current
           in call store (ids @ children) (rest @ children))) = Some r"
  show "\<exists>n. (dequeue store ^^ n) (ids, queue) = (r, [])"
  proof (cases queue)
    case Nil
    then have "(dequeue store ^^ 0) (ids, queue) = (r, [])" using eq by simp
    then show ?thesis by blast
  next
    case (Cons c rest)
    then have "call store (ids @ find_children store c) (rest @ find_children store c) = Some r"
      using eq by (simp add: Let_def)
    then obtain n where "(dequeue store ^^ n)
        (ids @ find_children store c, rest @ find_children store c) = (r, [])"
      using ih by blast
    moreover have "dequeue store (ids, queue) =
        (ids @ find_children store c, rest @ find_children store c)"
      using Cons by (simp add: dequeue_def)
    ultimately have "(dequeue store ^^ Suc n) (ids, queue) = (r, [])"
      by (simp add: funpow_swap1)
    then show ?thesis by blast
  qed
qed

lemma dequeue_done: "snd s = [] \<Longrightarrow> (dequeue store ^^ k) s = s"
  by (induction k) (simp_all add: dequeue_def)

lemma dequeue_done_later:
  assumes "(dequeue store ^^ n) s = (r, [])" and "n \<le> m"
  shows "(dequeue store ^^ m) s = (r, [])"
proof -
  have "(dequeue store ^^ (m - n + n)) s = (dequeue store ^^ (m - n)) ((dequeue store ^^ n) s)"
    by (simp only: funpow_add o_apply)
  then show ?thesis using assms by (simp add: dequeue_done)
qed

lemma dequeue_levels_steps:
  "(dequeue store ^^ steps_to_level store q d) (ids, q) =
     (ids @ concat (map (\<lambda>k. level store q (Suc k)) [0..<d]), level store q d)"
proof (induction d)
  case 0
  then show ?case by (simp add: steps_to_level_def)
next
  case (Suc d)
  let ?ids = "ids @ concat (map (\<lambda>k. level store q (Suc k)) [0..<d])"
  let ?q = "level store q d"
  have nl: "next_level store ?q = level store q (Suc d)"
    using level_add [of store q d 1] by simp
  have "steps_to_level store q (Suc d) = length ?q + steps_to_level store q d"
    by (simp add: steps_to_level_def)
  then have "(dequeue store ^^ steps_to_level store q (Suc d)) (ids, q) =
      (dequeue store ^^ length ?q) (?ids, ?q @ [])"
    by (simp add: funpow_add Suc)
  also have "\<dots> = (?ids @ next_level store ?q, [] @ next_level store ?q)"
    by (rule dequeue_level)
  finally show ?case by (simp add: nl)
qed

lemma steps_to_level_ge:
  "\<forall>k<d. level store q k \<noteq> [] \<Longrightarrow> d \<le> steps_to_level store q d"
proof (induction d)
  case 0
  then show ?case by simp
next
  case (Suc d)
  then have a: "d \<le> steps_to_level store q d" by simp
  have b: "1 \<le> length (level store q d)" using Suc.prems by (simp add: Suc_le_eq)
  have c: "steps_to_level store q (Suc d) = steps_to_level store q d + length (level store q d)"
    by (simp add: steps_to_level_def)
  show ?case using a b c by linarith
qed

lemma halts_level_empty:
  assumes "(dequeue store ^^ n) (ids, q) = (r, [])"
  shows "\<exists>d. level store q d = []"
proof (rule ccontr)
  assume "\<nexists>d. level store q d = []"
  then have ne: "level store q k \<noteq> []" for k by blast
  then have "n \<le> steps_to_level store q n" by (intro steps_to_level_ge) simp
  then have "(dequeue store ^^ steps_to_level store q n) (ids, q) = (r, [])"
    using assms by (rule dequeue_done_later [rotated])
  then have "level store q n = []" by (simp add: dequeue_levels_steps)
  then show False using ne by blast
qed

lemma level_self_loop:
  "level [\<lparr>fo_id = ''a'', fo_name = ''A'', fo_parentId = Some ''a''\<rparr>] [''a''] d = [''a'']"
  by (induction d) (simp_all add: next_level_def find_children_def)

section \<open>Replacement by matches\<close>




lemma replacePlaceholders_cong:
  assumes "\<And>m. (\<exists>i. placeholder_at s i m) \<Longrightarrow> row m = row' m"
  shows "replacePlaceholders s row = replacePlaceholders s row'"
  unfolding replacePlaceholders_js_replace
  by (rule js_replace_cong) (simp add: hole_placeholder row_value_def assms)

section \<open>Properties of the merge loop\<close>

lemma reserved_not_inherited:
  "''__name'' \<notin> set object_prototype_names" "''name'' \<notin> set object_prototype_names"
  "[] \<notin> set object_prototype_names"
  by (simp_all add: object_prototype_names_def)

lemma preferredNameField_inherited:
  "preferredNameField eff row = Inherited \<longleftrightarrow> reads_inherited eff row"
  using reserved_not_inherited
  by (auto simp: preferredNameField_def js_or_def truthy_def row_get_def reads_inherited_def
      first_nonempty_def split: option.splits list.splits if_splits)

lemma generatedName_throws:
  "reads_inherited eff row \<Longrightarrow> generatedName t eff row index = Inl TypeError"
  by (simp add: generatedName_def preferredNameField_inherited [symmetric])



lemma merge_found:
  assumes "mr_templateId req = Some tid" and "tid \<noteq> []"
    and "findById cast store tid = Inr (Some t)"
    and "mr_rows req = Some rows" and "rows \<noteq> []"
  shows "merge cast newId store req =
     (case merge_rows newId t (effective_fields t) (mr_folderId req) 0 rows store [] of
        (Inl exn, store') \<Rightarrow> (Inl InternalError, store')
      | (Inr createdTemplates, store') \<Rightarrow> (Inr createdTemplates, store'))"
  using assms by (simp add: merge_def effective_fields_def Let_def)

section \<open>The claims\<close>

text \<open>The claims of the specification follow, each with the property it states.\<close>

section \<open>C1: the outputs of a merge\<close>

text \<open>
  Claim C1 says that a merge request whose template id resolves and whose row list has
  \<open>N \<ge> 1\<close> rows creates and returns \<open>N\<close> templates. The handler breaks it on a
  template whose first effective field is named like a member of \<^verbatim>\<open>Object.prototype\<close>,
  here \<^verbatim>\<open>constructor\<close>, the field of the item \<^verbatim>\<open>{{constructor}}\<close>. For a row with
  neither \<^verbatim>\<open>__name\<close> nor \<^verbatim>\<open>name\<close> nor an entry of its own under that name, the read
  gives the inherited function, \<^verbatim>\<open>trim\<close> cannot be called on it, and the request ends
  with status 500: with the one row \<^verbatim>\<open>{}\<close> nothing is created, and with the rows
  \<^verbatim>\<open>{name: "A"}\<close> and \<^verbatim>\<open>{}\<close> the template of the first row stays in the store while
  none is returned. \<^verbatim>\<open>replacePlaceholders\<close> guards the same read with \<^verbatim>\<open>typeof\<close>.
\<close>

theorem merge_creates_failing_input:
  "merge cast_hex24 example_newId
     [(example_id, example_template
         \<lparr>t_items := [example_item\<lparr>ci_content := ''{{constructor}}''\<rparr>],
          t_fields :=
            [\<lparr>f_name = ''constructor'', f_label = ''constructor'', f_targetItemId = ''a''\<rparr>]\<rparr>)]
     \<lparr>mr_templateId = Some example_id, mr_folderId = None, mr_rows = Some (Map.empty # [])\<rparr>
   = (Inl InternalError,
      [(example_id, example_template
         \<lparr>t_items := [example_item\<lparr>ci_content := ''{{constructor}}''\<rparr>],
          t_fields :=
            [\<lparr>f_name = ''constructor'', f_label = ''constructor'', f_targetItemId = ''a''\<rparr>]\<rparr>)])
   \<and> merge cast_hex24 example_newId
     [(example_id, example_template
         \<lparr>t_items := [example_item\<lparr>ci_content := ''{{constructor}}''\<rparr>],
          t_fields :=
            [\<lparr>f_name = ''constructor'', f_label = ''constructor'', f_targetItemId = ''a''\<rparr>]\<rparr>)]
     \<lparr>mr_templateId = Some example_id, mr_folderId = None,
      mr_rows = Some ([''name'' \<mapsto> ''A''] # Map.empty # [])\<rparr>
   = (Inl InternalError,
      [(example_id, example_template
         \<lparr>t_items := [example_item\<lparr>ci_content := ''{{constructor}}''\<rparr>],
          t_fields :=
            [\<lparr>f_name = ''constructor'', f_label = ''constructor'', f_targetItemId = ''a''\<rparr>]\<rparr>),
       (''new1'',
        \<lparr>t_name = ''A'', t_folderId = Some ''f1'', t_width = 100, t_height = 50,
         t_items = [example_item\<lparr>ci_content := []\<rparr>],
         t_fields =
           [\<lparr>f_name = ''constructor'', f_label = ''constructor'', f_targetItemId = ''a''\<rparr>],
         t_role = Filled\<rparr>)])"
proof -
  let ?t = "example_template
         \<lparr>t_items := [example_item\<lparr>ci_content := ''{{constructor}}''\<rparr>],
          t_fields :=
            [\<lparr>f_name = ''constructor'', f_label = ''constructor'', f_targetItemId = ''a''\<rparr>]\<rparr>"
  let ?eff = "[\<lparr>f_name = ''constructor'', f_label = ''constructor'', f_targetItemId = ''a''\<rparr>]"
  have sel: "t_items ?t = [example_item\<lparr>ci_content := ''{{constructor}}''\<rparr>]"
    "t_fields ?t = ?eff" "t_name ?t = ''Base''" "t_folderId ?t = Some ''f1''"
    "t_width ?t = 100" "t_height ?t = 50"
    by (simp_all add: example_template_def)
  have eff: "effective_fields ?t = ?eff"
    by (simp add: effective_fields_def sel)
  have cl: "cloneItemsWithData [example_item\<lparr>ci_content := ''{{constructor}}''\<rparr>]
      [''name'' \<mapsto> ''A''] = [example_item\<lparr>ci_content := []\<rparr>]"
    by (simp add: cloneItemsWithData_def replacePlaceholders_def js_replace_def match_at_def
        is_word_char_def example_item_def)
  have fnd: "findById cast_hex24 [(example_id, ?t)] example_id = Inr (Some ?t)"
    by (simp add: findById_def cast_hex24_def hex_digit_def example_id_def)
  have n0: "generatedName ?t ?eff Map.empty i = Inl TypeError" for i
    by (simp add: generatedName_def preferredNameField_def js_or_def truthy_def row_get_def
        object_prototype_names_def)
  have n1: "generatedName ?t ?eff [''name'' \<mapsto> ''A''] 0 = Inr ''A''"
    by (simp add: generatedName_def preferredNameField_def js_or_def truthy_def row_get_def
        trim_def is_js_whitespace_def object_prototype_names_def)
  have nid: "example_newId [(a, b)] = ''new1''" for a b
    by (simp add: example_newId_def string_of_nat.simps)
  have id: "example_id \<noteq> []" by (simp add: example_id_def)
  have r0: "merge_rows example_newId ?t ?eff None 0 (Map.empty # []) [(example_id, ?t)] [] =
      (Inl TypeError, [(example_id, ?t)])"
    by (simp add: n0)
  have r1: "merge_rows example_newId ?t ?eff None 0 ([''name'' \<mapsto> ''A''] # Map.empty # [])
      [(example_id, ?t)] [] =
      (Inl TypeError,
       [(example_id, ?t),
        (''new1'',
         \<lparr>t_name = ''A'', t_folderId = Some ''f1'', t_width = 100, t_height = 50,
          t_items = [example_item\<lparr>ci_content := []\<rparr>],
          t_fields = ?eff, t_role = Filled\<rparr>)])"
    by (simp add: n0 n1 sel cl nid create_def Let_def)
  have "merge cast_hex24 example_newId [(example_id, ?t)]
     \<lparr>mr_templateId = Some example_id, mr_folderId = None, mr_rows = Some (Map.empty # [])\<rparr>
     = (Inl InternalError, [(example_id, ?t)])"
    by (subst merge_found [where tid = example_id and t = "?t" and rows = "Map.empty # []"])
      (simp_all add: id fnd eff r0 del: merge_rows.simps)
  moreover have "merge cast_hex24 example_newId [(example_id, ?t)]
     \<lparr>mr_templateId = Some example_id, mr_folderId = None,
      mr_rows = Some ([''name'' \<mapsto> ''A''] # Map.empty # [])\<rparr>
     = (Inl InternalError,
       [(example_id, ?t),
        (''new1'',
         \<lparr>t_name = ''A'', t_folderId = Some ''f1'', t_width = 100, t_height = 50,
          t_items = [example_item\<lparr>ci_content := []\<rparr>],
          t_fields = ?eff, t_role = Filled\<rparr>)])"
    by (subst merge_found [where tid = example_id and t = "?t"
          and rows = "[''name'' \<mapsto> ''A''] # Map.empty # []"])
      (simp_all add: id fnd eff r1 del: merge_rows.simps)
  ultimately show ?thesis by (intro conjI)
qed

section \<open>C2: names and folders of the outputs\<close>




section \<open>C3: field extraction\<close>

text \<open>
  Claim C3. Field extraction returns one field per distinct placeholder name, in the order
  of first occurrence (items in list order, only TEXT items, placeholders from left to
  right within an item); the label of a field is its name and its target is the id of the
  first item in which the name occurs; a name that occurs again gives no second field; and
  an item list without occurrences, the empty list among them, gives the empty field list.
\<close>

theorem field_extraction:
  "extractFieldsFromItems items = map field_of (first_occurrences (occurrences items))
   \<and> map f_name (extractFieldsFromItems items) = rev (remdups (rev (map fst (occurrences items))))
   \<and> distinct (map f_name (extractFieldsFromItems items))
   \<and> (\<forall>f \<in> set (extractFieldsFromItems items).
         f_label f = f_name f
       \<and> map_of (occurrences items) (f_name f) = Some (f_targetItemId f))
   \<and> (occurrences items = [] \<longrightarrow> extractFieldsFromItems items = [])"
proof -
  let ?fo = "first_occurrences (occurrences items)"
  have eq: "extractFieldsFromItems items = map field_of ?fo"
    by (rule extractFieldsFromItems_eq)
  have names: "map f_name (map field_of ?fo) = map fst ?fo"
    by (simp add: field_of_def comp_def)
  have "\<forall>p \<in> set ?fo. map_of (occurrences items) (fst p) = Some (snd p)"
  proof
    fix p assume "p \<in> set ?fo"
    then have "map_of ?fo (fst p) = Some (snd p)"
      using first_occurrences_distinct [of "occurrences items"] by simp
    then show "map_of (occurrences items) (fst p) = Some (snd p)"
      by (simp add: first_occurrences_map_of)
  qed
  then have "\<forall>f \<in> set (map field_of ?fo).
         f_label f = f_name f
       \<and> map_of (occurrences items) (f_name f) = Some (f_targetItemId f)"
    by (auto simp: field_of_def)
  then show ?thesis
    unfolding eq names
    by (simp add: first_occurrences_order first_occurrences_distinct [of "occurrences items", unfolded first_occurrences_order])
qed

theorem field_extraction_witness:
  "extractFieldsFromItems
     [\<lparr>ci_id = ''a'', ci_type = TEXT, ci_content = ''Hi {{user}}, {{user}} again'',
       ci_x = 1::int, ci_y = 2, ci_width = 30, ci_height = 4, ci_fontSize = Some 12,
       ci_fontFamily = None, ci_fontWeight = None, ci_fontStyle = None,
       ci_textDecoration = None, ci_color = Some ''red'', ci_textAlign = None\<rparr>,
      \<lparr>ci_id = ''q'', ci_type = QR, ci_content = ''{{code}}'',
       ci_x = 5, ci_y = 6, ci_width = 7, ci_height = 8, ci_fontSize = None,
       ci_fontFamily = None, ci_fontWeight = None, ci_fontStyle = None,
       ci_textDecoration = None, ci_color = None, ci_textAlign = None\<rparr>,
      \<lparr>ci_id = ''b'', ci_type = TEXT, ci_content = ''{{date}} {{user}}'',
       ci_x = 5, ci_y = 6, ci_width = 7, ci_height = 8, ci_fontSize = None,
       ci_fontFamily = None, ci_fontWeight = None, ci_fontStyle = None,
       ci_textDecoration = None, ci_color = None, ci_textAlign = None\<rparr>]
   = [\<lparr>f_name = ''user'', f_label = ''user'', f_targetItemId = ''a''\<rparr>,
      \<lparr>f_name = ''date'', f_label = ''date'', f_targetItemId = ''b''\<rparr>]
   \<and> map_of (occurrences
     [\<lparr>ci_id = ''a'', ci_type = TEXT, ci_content = ''Hi {{user}}, {{user}} again'',
       ci_x = 1::int, ci_y = 2, ci_width = 30, ci_height = 4, ci_fontSize = Some 12,
       ci_fontFamily = None, ci_fontWeight = None, ci_fontStyle = None,
       ci_textDecoration = None, ci_color = Some ''red'', ci_textAlign = None\<rparr>,
      \<lparr>ci_id = ''q'', ci_type = QR, ci_content = ''{{code}}'',
       ci_x = 5, ci_y = 6, ci_width = 7, ci_height = 8, ci_fontSize = None,
       ci_fontFamily = None, ci_fontWeight = None, ci_fontStyle = None,
       ci_textDecoration = None, ci_color = None, ci_textAlign = None\<rparr>,
      \<lparr>ci_id = ''b'', ci_type = TEXT, ci_content = ''{{date}} {{user}}'',
       ci_x = 5, ci_y = 6, ci_width = 7, ci_height = 8, ci_fontSize = None,
       ci_fontFamily = None, ci_fontWeight = None, ci_fontStyle = None,
       ci_textDecoration = None, ci_color = None, ci_textAlign = None\<rparr>]) ''user'' = Some ''a''
   \<and> extractFieldsFromItems ([] :: int canvas_item list) = []"
  (is "?c1 \<and> ?c2 \<and> ?c3")
proof -
  note eq = field_extraction [THEN conjunct1]
  note fld = field_extraction [THEN conjunct2, THEN conjunct2, THEN conjunct2, THEN conjunct1,
      rule_format]
  note emp = field_extraction [THEN conjunct2, THEN conjunct2, THEN conjunct2, THEN conjunct2,
      rule_format]
  have occ: "occurrences
     [\<lparr>ci_id = ''a'', ci_type = TEXT, ci_content = ''Hi {{user}}, {{user}} again'',
       ci_x = 1::int, ci_y = 2, ci_width = 30, ci_height = 4, ci_fontSize = Some 12,
       ci_fontFamily = None, ci_fontWeight = None, ci_fontStyle = None,
       ci_textDecoration = None, ci_color = Some ''red'', ci_textAlign = None\<rparr>,
      \<lparr>ci_id = ''q'', ci_type = QR, ci_content = ''{{code}}'',
       ci_x = 5, ci_y = 6, ci_width = 7, ci_height = 8, ci_fontSize = None,
       ci_fontFamily = None, ci_fontWeight = None, ci_fontStyle = None,
       ci_textDecoration = None, ci_color = None, ci_textAlign = None\<rparr>,
      \<lparr>ci_id = ''b'', ci_type = TEXT, ci_content = ''{{date}} {{user}}'',
       ci_x = 5, ci_y = 6, ci_width = 7, ci_height = 8, ci_fontSize = None,
       ci_fontFamily = None, ci_fontWeight = None, ci_fontStyle = None,
       ci_textDecoration = None, ci_color = None, ci_textAlign = None\<rparr>]
    = [(''user'', ''a''), (''user'', ''a''), (''date'', ''b''), (''user'', ''b'')]"
    by (simp add: occurrences_def matchAll_def match_at_def is_word_char_def)
  have c1: ?c1 by (subst eq) (simp add: occ field_of_def)
  have "\<lparr>f_name = ''user'', f_label = ''user'', f_targetItemId = ''a''\<rparr> \<in> set (extractFieldsFromItems
     [\<lparr>ci_id = ''a'', ci_type = TEXT, ci_content = ''Hi {{user}}, {{user}} again'',
       ci_x = 1::int, ci_y = 2, ci_width = 30, ci_height = 4, ci_fontSize = Some 12,
       ci_fontFamily = None, ci_fontWeight = None, ci_fontStyle = None,
       ci_textDecoration = None, ci_color = Some ''red'', ci_textAlign = None\<rparr>,
      \<lparr>ci_id = ''q'', ci_type = QR, ci_content = ''{{code}}'',
       ci_x = 5, ci_y = 6, ci_width = 7, ci_height = 8, ci_fontSize = None,
       ci_fontFamily = None, ci_fontWeight = None, ci_fontStyle = None,
       ci_textDecoration = None, ci_color = None, ci_textAlign = None\<rparr>,
      \<lparr>ci_id = ''b'', ci_type = TEXT, ci_content = ''{{date}} {{user}}'',
       ci_x = 5, ci_y = 6, ci_width = 7, ci_height = 8, ci_fontSize = None,
       ci_fontFamily = None, ci_fontWeight = None, ci_fontStyle = None,
       ci_textDecoration = None, ci_color = None, ci_textAlign = None\<rparr>])"
    by (subst c1) simp
  from fld [OF this] have c2: ?c2 by simp
  have c3: ?c3 by (rule emp) (simp add: occurrences_def)
  show ?thesis using c1 c2 c3 by (intro conjI)
qed

section \<open>C4: the placeholder grammar\<close>



section \<open>C5: row substitution\<close>

text \<open>
  Claim C5. Row substitution returns a list of the same length and order. A non-TEXT item
  is returned unchanged; a TEXT item keeps every attribute but its content, which becomes
  the substituted content. Substitution replaces every occurrence of a placeholder by the
  row's string for its name, or by the empty string when the row has none, whatever
  precedes and follows the occurrence (so for none, one or several occurrences, of the same
  or of different names); a content with no placeholder is returned unchanged.
\<close>

theorem row_substitution:
  "length (cloneItemsWithData items row) = length items
   \<and> (\<forall>i < length items.
        (ci_type (items ! i) \<noteq> TEXT \<longrightarrow> cloneItemsWithData items row ! i = items ! i)
      \<and> (ci_type (items ! i) = TEXT \<longrightarrow>
           cloneItemsWithData items row ! i =
             (items ! i)\<lparr>ci_content := replacePlaceholders (ci_content (items ! i)) row\<rparr>))
   \<and> (\<forall>pre n post. valid_name n \<longrightarrow>
        replacePlaceholders (pre @ placeholder_text n @ post) row =
          replacePlaceholders pre row
            @ (case row n of Some v \<Rightarrow> v | None \<Rightarrow> [])
            @ replacePlaceholders post row)
   \<and> (\<forall>s. (\<forall>i n. \<not> placeholder_at s i n) \<longrightarrow> replacePlaceholders s row = s)"
proof -
  have "length (cloneItemsWithData items row) = length items"
    by (simp add: cloneItemsWithData_def)
  moreover have "\<forall>i < length items.
        (ci_type (items ! i) \<noteq> TEXT \<longrightarrow> cloneItemsWithData items row ! i = items ! i)
      \<and> (ci_type (items ! i) = TEXT \<longrightarrow>
           cloneItemsWithData items row ! i =
             (items ! i)\<lparr>ci_content := replacePlaceholders (ci_content (items ! i)) row\<rparr>)"
    by (simp add: cloneItemsWithData_def)
  moreover have "\<forall>pre n post. valid_name n \<longrightarrow>
        replacePlaceholders (pre @ placeholder_text n @ post) row =
          replacePlaceholders pre row
            @ (case row n of Some v \<Rightarrow> v | None \<Rightarrow> [])
            @ replacePlaceholders post row"
    by (simp add: replacePlaceholders_js_replace js_replace_append_hole row_value_def)
  moreover have "\<forall>s. (\<forall>i n. \<not> placeholder_at s i n) \<longrightarrow> replacePlaceholders s row = s"
    by (simp add: replacePlaceholders_js_replace js_replace_no_placeholder)
  ultimately show ?thesis by blast
qed

theorem row_substitution_witness:
  "length (cloneItemsWithData
     [\<lparr>ci_id = ''a'', ci_type = TEXT, ci_content = ''{{user}}{{user}}'',
       ci_x = 1::int, ci_y = 2, ci_width = 30, ci_height = 4, ci_fontSize = Some 12,
       ci_fontFamily = None, ci_fontWeight = None, ci_fontStyle = None,
       ci_textDecoration = None, ci_color = Some ''red'', ci_textAlign = None\<rparr>,
      \<lparr>ci_id = ''b'', ci_type = QR, ci_content = ''{{user}}'',
       ci_x = 5, ci_y = 6, ci_width = 7, ci_height = 8, ci_fontSize = None,
       ci_fontFamily = None, ci_fontWeight = None, ci_fontStyle = None,
       ci_textDecoration = None, ci_color = None, ci_textAlign = None\<rparr>]
     [''user'' \<mapsto> ''Ana'']) = 2
   \<and> cloneItemsWithData
     [\<lparr>ci_id = ''a'', ci_type = TEXT, ci_content = ''{{user}}{{user}}'',
       ci_x = 1::int, ci_y = 2, ci_width = 30, ci_height = 4, ci_fontSize = Some 12,
       ci_fontFamily = None, ci_fontWeight = None, ci_fontStyle = None,
       ci_textDecoration = None, ci_color = Some ''red'', ci_textAlign = None\<rparr>,
      \<lparr>ci_id = ''b'', ci_type = QR, ci_content = ''{{user}}'',
       ci_x = 5, ci_y = 6, ci_width = 7, ci_height = 8, ci_fontSize = None,
       ci_fontFamily = None, ci_fontWeight = None, ci_fontStyle = None,
       ci_textDecoration = None, ci_color = None, ci_textAlign = None\<rparr>]
     [''user'' \<mapsto> ''Ana''] ! 0
     = \<lparr>ci_id = ''a'', ci_type = TEXT, ci_content = ''AnaAna'',
       ci_x = 1::int, ci_y = 2, ci_width = 30, ci_height = 4, ci_fontSize = Some 12,
       ci_fontFamily = None, ci_fontWeight = None, ci_fontStyle = None,
       ci_textDecoration = None, ci_color = Some ''red'', ci_textAlign = None\<rparr>
   \<and> cloneItemsWithData
     [\<lparr>ci_id = ''a'', ci_type = TEXT, ci_content = ''{{user}}{{user}}'',
       ci_x = 1::int, ci_y = 2, ci_width = 30, ci_height = 4, ci_fontSize = Some 12,
       ci_fontFamily = None, ci_fontWeight = None, ci_fontStyle = None,
       ci_textDecoration = None, ci_color = Some ''red'', ci_textAlign = None\<rparr>,
      \<lparr>ci_id = ''b'', ci_type = QR, ci_content = ''{{user}}'',
       ci_x = 5, ci_y = 6, ci_width = 7, ci_height = 8, ci_fontSize = None,
       ci_fontFamily = None, ci_fontWeight = None, ci_fontStyle = None,
       ci_textDecoration = None, ci_color = None, ci_textAlign = None\<rparr>]
     [''user'' \<mapsto> ''Ana''] ! 1
     = \<lparr>ci_id = ''b'', ci_type = QR, ci_content = ''{{user}}'',
       ci_x = 5, ci_y = 6, ci_width = 7, ci_height = 8, ci_fontSize = None,
       ci_fontFamily = None, ci_fontWeight = None, ci_fontStyle = None,
       ci_textDecoration = None, ci_color = None, ci_textAlign = None\<rparr>
   \<and> replacePlaceholders (''Hi '' @ placeholder_text ''user'' @ '', bye {{other}}'')
         [''user'' \<mapsto> ''Ana''] = ''Hi Ana, bye ''
   \<and> replacePlaceholders ''no {{ placeholder }} here'' [''user'' \<mapsto> ''Ana'']
       = ''no {{ placeholder }} here''"
  (is "?c1 \<and> ?c2 \<and> ?c3 \<and> ?c4 \<and> ?c5")
proof -
  note len = row_substitution [THEN conjunct1]
  note nth = row_substitution [THEN conjunct2, THEN conjunct1, rule_format]
  note other = nth [THEN conjunct1, rule_format]
  note on_text = nth [THEN conjunct2, rule_format]
  note hole = row_substitution [THEN conjunct2, THEN conjunct2, THEN conjunct1, rule_format]
  note plain = row_substitution [THEN conjunct2, THEN conjunct2, THEN conjunct2, rule_format]
  have v: "valid_name ''user''" by (simp add: valid_name_def is_word_char_def)
  have np: "\<not> placeholder_at ''no {{ placeholder }} here'' i n" for i n
    using no_placeholder_iff [of "''no {{ placeholder }} here''"]
    by (simp add: matchAll_def match_at_def is_word_char_def)
  have e0: "replacePlaceholders ''{{user}}{{user}}'' [''user'' \<mapsto> ''Ana''] = ''AnaAna''"
    by (simp add: replacePlaceholders_def js_replace_def match_at_def is_word_char_def)
  have e1: "replacePlaceholders ''Hi '' [''user'' \<mapsto> ''Ana''] = ''Hi ''"
    by (simp add: replacePlaceholders_def js_replace_def match_at_def is_word_char_def)
  have e2: "replacePlaceholders '', bye {{other}}'' [''user'' \<mapsto> ''Ana''] = '', bye ''"
    by (simp add: replacePlaceholders_def js_replace_def match_at_def is_word_char_def)
  have ?c1 by (simp add: len)
  moreover have ?c2 by (subst on_text) (simp_all add: e0)
  moreover have ?c3 by (subst other) simp_all
  moreover have ?c4 by (subst hole [OF v]) (simp add: e1 e2)
  moreover have ?c5 by (rule plain) (rule np)
  ultimately show ?thesis by (intro conjI)
qed

section \<open>C6: the descendant closure of a folder\<close>

text \<open>
  Claim C6, as the code has it. Whenever the traversal returns, its result holds precisely
  the folder ids reachable from the root along the is-parent-of relation, the root
  included, root first and then level by level; it returns whenever the parent relation
  is acyclic; and for a folder without children it returns the singleton of that folder's
  id.
\<close>

theorem descendant_closure:
  "(findDescendantFolderIds store rootId = Some ids \<longrightarrow>
      set ids = {c. (rootId, c) \<in> (parent_edges store)\<^sup>*}
      \<and> hd ids = rootId
      \<and> (\<exists>d. ids = concat (map (level store [rootId]) [0..<d])))
   \<and> (acyclic (parent_edges store) \<longrightarrow>
        (\<exists>ids'. findDescendantFolderIds store rootId = Some ids'))
   \<and> (find_children store rootId = [] \<longrightarrow>
        findDescendantFolderIds store rootId = Some [rootId])"
proof (intro conjI impI)
  assume r: "findDescendantFolderIds store rootId = Some ids"
  then obtain n where "(dequeue store ^^ n) ([rootId], [rootId]) = (ids, [])"
    unfolding findDescendantFolderIds_def using descend_halts by blast
  then obtain d where d: "level store [rootId] d = []" using halts_level_empty by blast
  then have "findDescendantFolderIds store rootId =
      Some (concat (map (level store [rootId]) [0..<d]))"
    using traversal_result by blast
  then have ids: "ids = concat (map (level store [rootId]) [0..<d])" using r by simp
  show "\<exists>d. ids = concat (map (level store [rootId]) [0..<d])" using ids by blast
  show "set ids = {c. (rootId, c) \<in> (parent_edges store)\<^sup>*}"
    unfolding ids reachable_levels [OF d] by auto
  obtain d' where d': "d = Suc d'" using d by (cases d) auto
  have "[0..<Suc d'] = 0 # [Suc 0..<Suc d']" by (rule upt_conv_Cons) simp
  then show "hd ids = rootId" unfolding ids d' by simp
next
  assume "acyclic (parent_edges store)"
  then obtain d where "level store [rootId] d = []" using levels_end by blast
  then show "\<exists>ids'. findDescendantFolderIds store rootId = Some ids'"
    using traversal_result by blast
next
  assume "find_children store rootId = []"
  then have "level store [rootId] 1 = []" by (simp add: next_level_def)
  from traversal_result [OF this] show "findDescendantFolderIds store rootId = Some [rootId]"
    by simp
qed

theorem descendant_closure_witness:
  "set [''root'', ''child1'', ''child2'', ''grandchild''] = {c. (''root'', c) \<in> (parent_edges
     [\<lparr>fo_id = ''root'', fo_name = ''Root'', fo_parentId = None\<rparr>,
      \<lparr>fo_id = ''child1'', fo_name = ''One'', fo_parentId = Some ''root''\<rparr>,
      \<lparr>fo_id = ''child2'', fo_name = ''Two'', fo_parentId = Some ''root''\<rparr>,
      \<lparr>fo_id = ''grandchild'', fo_name = ''Three'', fo_parentId = Some ''child1''\<rparr>])\<^sup>*}
   \<and> (\<exists>ids'. findDescendantFolderIds
     [\<lparr>fo_id = ''root'', fo_name = ''Root'', fo_parentId = None\<rparr>,
      \<lparr>fo_id = ''child1'', fo_name = ''One'', fo_parentId = Some ''root''\<rparr>,
      \<lparr>fo_id = ''child2'', fo_name = ''Two'', fo_parentId = Some ''root''\<rparr>,
      \<lparr>fo_id = ''grandchild'', fo_name = ''Three'', fo_parentId = Some ''child1''\<rparr>]
      ''root'' = Some ids')
   \<and> findDescendantFolderIds
     [\<lparr>fo_id = ''root'', fo_name = ''Root'', fo_parentId = None\<rparr>,
      \<lparr>fo_id = ''child1'', fo_name = ''One'', fo_parentId = Some ''root''\<rparr>,
      \<lparr>fo_id = ''child2'', fo_name = ''Two'', fo_parentId = Some ''root''\<rparr>,
      \<lparr>fo_id = ''grandchild'', fo_name = ''Three'', fo_parentId = Some ''child1''\<rparr>]
      ''grandchild'' = Some [''grandchild'']"
  (is "?a \<and> ?b \<and> ?c")
proof -
  let ?store = "[\<lparr>fo_id = ''root'', fo_name = ''Root'', fo_parentId = None\<rparr>,
      \<lparr>fo_id = ''child1'', fo_name = ''One'', fo_parentId = Some ''root''\<rparr>,
      \<lparr>fo_id = ''child2'', fo_name = ''Two'', fo_parentId = Some ''root''\<rparr>,
      \<lparr>fo_id = ''grandchild'', fo_name = ''Three'', fo_parentId = Some ''child1''\<rparr>]"
  note sound = descendant_closure [THEN conjunct1, rule_format]
  note total = descendant_closure [THEN conjunct2, THEN conjunct1, rule_format]
  note leaf = descendant_closure [THEN conjunct2, THEN conjunct2, rule_format]
  have run: "findDescendantFolderIds ?store ''root'' =
      Some [''root'', ''child1'', ''child2'', ''grandchild'']"
    by (simp add: findDescendantFolderIds_def descend.simps find_children_def)
  have acyc: "acyclic (parent_edges ?store)"
    by (simp add: parent_edges_def acyclic_insert rtrancl_insert) (simp add: acyclic_def)
  have nochild: "find_children ?store ''grandchild'' = []"
    by (simp add: find_children_def)
  have ?a using sound [OF run] by (rule conjunct1)
  moreover have ?b using acyc by (rule total)
  moreover have ?c using nochild by (rule leaf)
  ultimately show ?thesis by (intro conjI)
qed

text \<open>
  Claim C6 as stated, for every folder store, fails: with a folder that is its own parent
  the traversal never returns.
\<close>

theorem descendant_closure_counterexample:
  "findDescendantFolderIds [\<lparr>fo_id = ''a'', fo_name = ''A'', fo_parentId = Some ''a''\<rparr>] ''a'' = None"
proof (rule ccontr)
  let ?store = "[\<lparr>fo_id = ''a'', fo_name = ''A'', fo_parentId = Some ''a''\<rparr>]"
  assume "findDescendantFolderIds ?store ''a'' \<noteq> None"
  then obtain r where "descend ?store [''a''] [''a''] = Some r"
    unfolding findDescendantFolderIds_def by blast
  then obtain n where "(dequeue ?store ^^ n) ([''a''], [''a'']) = (r, [])"
    using descend_halts by blast
  then obtain d where "level ?store [''a''] d = []" using halts_level_empty by blast
  then show False by (simp add: level_self_loop)
qed

section \<open>C7: termination of the traversal\<close>

text \<open>
  Claim C7. For every folder store whose parent relation is acyclic the traversal
  terminates: after finitely many passes through the loop the queue is empty, and the
  function returns the ids collected so far.
\<close>

theorem traversal_terminates:
  "acyclic (parent_edges store) \<Longrightarrow>
   \<exists>n ids. (dequeue store ^^ n) ([rootId], [rootId]) = (ids, [])
     \<and> findDescendantFolderIds store rootId = Some ids"
proof -
  assume "acyclic (parent_edges store)"
  then obtain d where "level store [rootId] d = []" using levels_end by blast
  then show ?thesis using traversal_result by blast
qed

theorem traversal_terminates_witness:
  "acyclic (parent_edges
     [\<lparr>fo_id = ''root'', fo_name = ''Root'', fo_parentId = None\<rparr>,
      \<lparr>fo_id = ''child1'', fo_name = ''One'', fo_parentId = Some ''root''\<rparr>,
      \<lparr>fo_id = ''child2'', fo_name = ''Two'', fo_parentId = Some ''root''\<rparr>,
      \<lparr>fo_id = ''grandchild'', fo_name = ''Three'', fo_parentId = Some ''child1''\<rparr>])
   \<and> (\<exists>n ids. (dequeue
     [\<lparr>fo_id = ''root'', fo_name = ''Root'', fo_parentId = None\<rparr>,
      \<lparr>fo_id = ''child1'', fo_name = ''One'', fo_parentId = Some ''root''\<rparr>,
      \<lparr>fo_id = ''child2'', fo_name = ''Two'', fo_parentId = Some ''root''\<rparr>,
      \<lparr>fo_id = ''grandchild'', fo_name = ''Three'', fo_parentId = Some ''child1''\<rparr>] ^^ n)
        ([''root''], [''root'']) = (ids, [])
      \<and> findDescendantFolderIds
     [\<lparr>fo_id = ''root'', fo_name = ''Root'', fo_parentId = None\<rparr>,
      \<lparr>fo_id = ''child1'', fo_name = ''One'', fo_parentId = Some ''root''\<rparr>,
      \<lparr>fo_id = ''child2'', fo_name = ''Two'', fo_parentId = Some ''root''\<rparr>,
      \<lparr>fo_id = ''grandchild'', fo_name = ''Three'', fo_parentId = Some ''child1''\<rparr>]
        ''root'' = Some ids)"
  (is "?a \<and> ?b")
proof -
  have a: ?a
    by (simp add: parent_edges_def acyclic_insert rtrancl_insert) (simp add: acyclic_def)
  from traversal_terminates [OF a] have ?b .
  with a show ?thesis by (rule conjI)
qed

section \<open>C8: rejected merge requests\<close>

text \<open>
  Claim C8, as the code has it. A merge request without a template id (missing or empty),
  or without rows (no list or an empty one), fails with \<open>ValidationFailure\<close>. A request
  whose template id casts to a document id that names no stored template fails with
  \<open>NotFound\<close>. A request whose template id does not cast to a document id fails with
  \<open>InternalError\<close>, since the lookup rejects. In all three cases the store is left as it
  was.
\<close>

theorem merge_guards:
  "((mr_templateId req = None \<or> mr_templateId req = Some []
      \<or> mr_rows req = None \<or> mr_rows req = Some [])
     \<longrightarrow> merge cast newId store req = (Inl ValidationFailure, store))
   \<and> ((\<exists>tid rows oid. mr_templateId req = Some tid \<and> tid \<noteq> [] \<and> mr_rows req = Some rows
          \<and> rows \<noteq> [] \<and> cast tid = Some oid \<and> map_of store oid = None)
     \<longrightarrow> merge cast newId store req = (Inl NotFound, store))
   \<and> ((\<exists>tid rows. mr_templateId req = Some tid \<and> tid \<noteq> [] \<and> mr_rows req = Some rows
          \<and> rows \<noteq> [] \<and> cast tid = None)
     \<longrightarrow> merge cast newId store req = (Inl InternalError, store))"
  by (auto simp: merge_def findById_def split: option.splits)

theorem merge_guards_witness:
  "merge cast_hex24 example_newId [(example_id, example_template)]
     \<lparr>mr_templateId = None, mr_folderId = None, mr_rows = Some example_rows\<rparr>
     = (Inl ValidationFailure, [(example_id, example_template)])
   \<and> merge cast_hex24 example_newId [(example_id, example_template)]
     \<lparr>mr_templateId = Some example_id, mr_folderId = None, mr_rows = Some []\<rparr>
     = (Inl ValidationFailure, [(example_id, example_template)])
   \<and> merge cast_hex24 example_newId [(example_id, example_template)]
     \<lparr>mr_templateId = Some ''0123456789ABCDEF01234567'', mr_folderId = None,
      mr_rows = Some example_rows\<rparr>
     = (Inl NotFound, [(example_id, example_template)])
   \<and> merge cast_hex24 example_newId [(example_id, example_template)]
     \<lparr>mr_templateId = Some ''not an id'', mr_folderId = None, mr_rows = Some example_rows\<rparr>
     = (Inl InternalError, [(example_id, example_template)])"
  (is "?a \<and> ?b \<and> ?c \<and> ?d")
proof -
  note invalid = merge_guards [THEN conjunct1, rule_format]
  note missing = merge_guards [THEN conjunct2, THEN conjunct1, rule_format]
  note rejected = merge_guards [THEN conjunct2, THEN conjunct2, rule_format]
  have c: "cast_hex24 ''0123456789ABCDEF01234567'' = Some ''0123456789abcdef01234567''"
    by (simp add: cast_hex24_def hex_digit_def)
  have ?a by (rule invalid) simp
  moreover have ?b by (rule invalid) simp
  moreover have ?c
    by (rule missing) (simp add: c example_rows_def example_id_def)
  moreover have ?d
    by (rule rejected) (simp add: cast_hex24_def example_rows_def)
  ultimately show ?thesis by (intro conjI)
qed

text \<open>
  Claim C8 as stated fails: for the id \<^verbatim>\<open>t2\<close> no template exists, and the request does
  not fail with \<open>NotFound\<close> but with \<open>InternalError\<close>.
\<close>

theorem merge_guards_counterexample:
  "map_of [(example_id, example_template)] ''t2'' = None
   \<and> merge cast_hex24 example_newId [(example_id, example_template)]
       \<lparr>mr_templateId = Some ''t2'', mr_folderId = None, mr_rows = Some example_rows\<rparr>
     = (Inl InternalError, [(example_id, example_template)])"
  by (simp add: merge_def findById_def cast_hex24_def example_id_def example_rows_def)

section \<open>C9: the reserved row keys\<close>

text \<open>
  Claim C9, as the code has it. Substitution treats every row key alike: the value of a key
  enters the content of the outputs exactly through the placeholders of that name. Where
  no TEXT item holds a placeholder named after a key, the substituted items do not depend
  on the row's value for it; where one does, the value is inserted there. Both
  \<^verbatim>\<open>__name\<close> and \<^verbatim>\<open>name\<close> are placeholder names.
\<close>

theorem reserved_keys:
  "((\<forall>item \<in> set items. ci_type item = TEXT \<longrightarrow> (\<forall>i. \<not> placeholder_at (ci_content item) i key))
      \<longrightarrow> cloneItemsWithData items (row(key := v)) = cloneItemsWithData items row)
   \<and> (valid_name key \<longrightarrow>
        replacePlaceholders (pre @ placeholder_text key @ post) row =
          replacePlaceholders pre row @ row_value row key @ replacePlaceholders post row)
   \<and> valid_name ''__name'' \<and> valid_name ''name''"
proof (intro conjI impI)
  assume a: "\<forall>item \<in> set items. ci_type item = TEXT \<longrightarrow>
      (\<forall>i. \<not> placeholder_at (ci_content item) i key)"
  have "replacePlaceholders (ci_content item) (row(key := v)) =
      replacePlaceholders (ci_content item) row"
    if "item \<in> set items" and "ci_type item = TEXT" for item
  proof (rule replacePlaceholders_cong)
    fix m assume "\<exists>i. placeholder_at (ci_content item) i m"
    then have "m \<noteq> key" using a that by blast
    then show "(row(key := v)) m = row m" by simp
  qed
  then show "cloneItemsWithData items (row(key := v)) = cloneItemsWithData items row"
    unfolding cloneItemsWithData_def by (intro map_cong) auto
next
  assume "valid_name key"
  then show "replacePlaceholders (pre @ placeholder_text key @ post) row =
          replacePlaceholders pre row @ row_value row key @ replacePlaceholders post row"
    by (simp add: replacePlaceholders_js_replace js_replace_append_hole)
next
  show "valid_name ''__name''" by (simp add: valid_name_def is_word_char_def)
  show "valid_name ''name''" by (simp add: valid_name_def is_word_char_def)
qed

theorem reserved_keys_witness:
  "cloneItemsWithData [example_item] ([''sku'' \<mapsto> ''A1''](''__name'' := Some ''Custom''))
     = cloneItemsWithData [example_item] [''sku'' \<mapsto> ''A1'']
   \<and> replacePlaceholders (''Label '' @ placeholder_text ''__name'' @ ''!'')
        [''__name'' \<mapsto> ''Custom''] = ''Label Custom!''"
  (is "?a \<and> ?b")
proof -
  note absent = reserved_keys [THEN conjunct1, rule_format]
  note present = reserved_keys [THEN conjunct2, THEN conjunct1, rule_format]
  note reserved = reserved_keys [THEN conjunct2, THEN conjunct2, THEN conjunct1]
  have t: "tokens ''SKU {{sku}}'' =
      [Lit CHR ''S'', Lit CHR ''K'', Lit CHR ''U'', Lit CHR '' '', Hole ''sku'']"
    by (simp add: match_at_def is_word_char_def)
  have "\<not> (\<exists>i. placeholder_at ''SKU {{sku}}'' i ''__name'')"
    unfolding hole_placeholder [symmetric] t by simp
  then have np: "\<not> placeholder_at (ci_content example_item) i ''__name''" for i
    by (simp add: example_item_def)
  have ?a by (rule absent) (simp add: np)
  moreover have "replacePlaceholders (''Label '' @ placeholder_text ''__name'' @ ''!'')
        [''__name'' \<mapsto> ''Custom''] =
      replacePlaceholders ''Label '' [''__name'' \<mapsto> ''Custom'']
        @ row_value [''__name'' \<mapsto> ''Custom''] ''__name''
        @ replacePlaceholders ''!'' [''__name'' \<mapsto> ''Custom'']"
    by (rule present) (rule reserved)
  then have ?b
    by (simp add: row_value_def replacePlaceholders_def js_replace_def match_at_def
        is_word_char_def)
  ultimately show ?thesis by (intro conjI)
qed

text \<open>
  Claim C9 as stated fails for \<^verbatim>\<open>__name\<close>: merged into a template whose item reads
  \<^verbatim>\<open>Label {{__name}}\<close>, the row's \<^verbatim>\<open>__name\<close> value is part of the output's content.
\<close>

theorem reserved_keys_counterexample:
  "map (\<lambda>out. map ci_content (tr_items out))
     (case fst (merge cast_hex24 example_newId
                  [(example_id, example_template
                       \<lparr>t_items := [example_item\<lparr>ci_content := ''Label {{__name}}''\<rparr>]\<rparr>)]
                  \<lparr>mr_templateId = Some example_id, mr_folderId = None,
                   mr_rows = Some ([''__name'' \<mapsto> ''Custom''] # [])\<rparr>)
      of Inr outs \<Rightarrow> outs | Inl e \<Rightarrow> [])
   = [''Label Custom''] # []"
  by (simp add: merge_def findById_def cast_hex24_def hex_digit_def example_id_def
      create_def mapTemplate_def Let_def generatedName_def preferredNameField_def js_or_def
      truthy_def row_get_def trim_def is_js_whitespace_def
      example_template_def example_item_def cloneItemsWithData_def
      replacePlaceholders_def js_replace_def match_at_def is_word_char_def)

section \<open>C10: substitution is a single pass\<close>



end
